theory Spec2Isabelle
  imports Complex_Main
begin

section \<open>Numbers, matrices and errors\<close>

text \<open>
  A C++ \<open>double\<close> is modelled as an extended real: a finite value carries an exact real
  (rounding, overflow and underflow of IEEE arithmetic are not modelled, and neither is the
  sign of zero: a zero divisor counts as +0), next to the two infinities and two kinds of
  not-a-number. \<open>NA\<close> is R's missing value \<open>NA_REAL\<close> / \<open>R_NaReal\<close>, a NaN with a
  distinguished payload that \<open>ISNA\<close> recognises; \<open>NaN\<close> is every other NaN. An operation
  with a not-a-number operand returns its first such operand (the x86-64 convention); an
  invalid operation on other operands returns \<open>NaN\<close>.
\<close>

datatype double = Fin real | PInf | NInf | NaN | NA

fun is_nan :: "double \<Rightarrow> bool" where
  "is_nan NaN = True"
| "is_nan NA = True"
| "is_nan _ = False"

fun ISNA :: "double \<Rightarrow> bool" where
  "ISNA NA = True"
| "ISNA _ = False"

fun is_finite :: "double \<Rightarrow> bool" where
  "is_finite (Fin _) = True"
| "is_finite _ = False"

fun dneg :: "double \<Rightarrow> double" where
  "dneg (Fin a) = Fin (- a)"
| "dneg PInf = NInf"
| "dneg NInf = PInf"
| "dneg NaN = NaN"
| "dneg NA = NA"

fun dadd :: "double \<Rightarrow> double \<Rightarrow> double" where
  "dadd NA _ = NA"
| "dadd NaN _ = NaN"
| "dadd _ NA = NA"
| "dadd _ NaN = NaN"
| "dadd (Fin a) (Fin b) = Fin (a + b)"
| "dadd PInf NInf = NaN"
| "dadd NInf PInf = NaN"
| "dadd PInf _ = PInf"
| "dadd NInf _ = NInf"
| "dadd _ PInf = PInf"
| "dadd _ NInf = NInf"

definition dsub :: "double \<Rightarrow> double \<Rightarrow> double" where
  "dsub x y = dadd x (dneg y)"

fun dmul :: "double \<Rightarrow> double \<Rightarrow> double" where
  "dmul NA _ = NA"
| "dmul NaN _ = NaN"
| "dmul _ NA = NA"
| "dmul _ NaN = NaN"
| "dmul (Fin a) (Fin b) = Fin (a * b)"
| "dmul (Fin a) PInf = (if 0 < a then PInf else if a < 0 then NInf else NaN)"
| "dmul (Fin a) NInf = (if 0 < a then NInf else if a < 0 then PInf else NaN)"
| "dmul PInf (Fin b) = (if 0 < b then PInf else if b < 0 then NInf else NaN)"
| "dmul NInf (Fin b) = (if 0 < b then NInf else if b < 0 then PInf else NaN)"
| "dmul PInf PInf = PInf"
| "dmul PInf NInf = NInf"
| "dmul NInf PInf = NInf"
| "dmul NInf NInf = PInf"

fun ddiv :: "double \<Rightarrow> double \<Rightarrow> double" where
  "ddiv NA _ = NA"
| "ddiv NaN _ = NaN"
| "ddiv _ NA = NA"
| "ddiv _ NaN = NaN"
| "ddiv (Fin a) (Fin b) =
     (if b = 0 then (if 0 < a then PInf else if a < 0 then NInf else NaN) else Fin (a / b))"
| "ddiv (Fin a) PInf = Fin 0"
| "ddiv (Fin a) NInf = Fin 0"
| "ddiv PInf (Fin b) = (if 0 \<le> b then PInf else NInf)"
| "ddiv NInf (Fin b) = (if 0 \<le> b then NInf else PInf)"
| "ddiv PInf PInf = NaN"
| "ddiv PInf NInf = NaN"
| "ddiv NInf PInf = NaN"
| "ddiv NInf NInf = NaN"

text \<open>Comparisons are false as soon as one side is not a number.\<close>

fun dless :: "double \<Rightarrow> double \<Rightarrow> bool" where
  "dless (Fin a) (Fin b) = (a < b)"
| "dless (Fin a) PInf = True"
| "dless NInf (Fin b) = True"
| "dless NInf PInf = True"
| "dless _ _ = False"

definition dle :: "double \<Rightarrow> double \<Rightarrow> bool" where
  "dle x y = (dless x y \<or> (x = y \<and> \<not> is_nan x))"

text \<open>\<open>x >= y\<close> of the source is \<open>dle y x\<close>.\<close>

fun dabs :: "double \<Rightarrow> double" where
  "dabs (Fin a) = Fin \<bar>a\<bar>"
| "dabs PInf = PInf"
| "dabs NInf = PInf"
| "dabs NaN = NaN"
| "dabs NA = NA"

fun dexp :: "double \<Rightarrow> double" where
  "dexp (Fin a) = Fin (exp a)"
| "dexp PInf = PInf"
| "dexp NInf = Fin 0"
| "dexp NaN = NaN"
| "dexp NA = NA"

fun dsqrt :: "double \<Rightarrow> double" where
  "dsqrt (Fin a) = (if 0 \<le> a then Fin (sqrt a) else NaN)"
| "dsqrt PInf = PInf"
| "dsqrt NInf = NaN"
| "dsqrt NaN = NaN"
| "dsqrt NA = NA"

fun dlog1p :: "double \<Rightarrow> double" where
  "dlog1p (Fin a) = (if - 1 < a then Fin (ln (1 + a)) else if a = - 1 then NInf else NaN)"
| "dlog1p PInf = PInf"
| "dlog1p NInf = NaN"
| "dlog1p NaN = NaN"
| "dlog1p NA = NA"

text \<open>\<open>std::max(a, b)\<close> is \<open>(a < b) ? b : a\<close>.\<close>

definition dmax :: "double \<Rightarrow> double \<Rightarrow> double" where
  "dmax a b = (if dless a b then b else a)"

text \<open>
  The R mathematics library: \<open>fmax2\<close> returns \<open>x + y\<close> when an argument is not a number,
  \<open>logspace_add(lx, ly)\<close> is \<open>fmax2(lx, ly) + log1p(exp(-fabs(lx - ly)))\<close>, and
  \<open>log1pexp(x)\<close> is \<open>log(1 + exp(x))\<close> (its asymptotic branches round that value for
  large \<open>x\<close>; the source only calls it on \<open>-diff\<close>, which is never positive).
\<close>

definition fmax2 :: "double \<Rightarrow> double \<Rightarrow> double" where
  "fmax2 x y = (if is_nan x \<or> is_nan y then dadd x y else if dless x y then y else x)"

definition logspace_add :: "double \<Rightarrow> double \<Rightarrow> double" where
  "logspace_add lx ly = dadd (fmax2 lx ly) (dlog1p (dexp (dneg (dabs (dsub lx ly)))))"

definition log1pexp :: "double \<Rightarrow> double" where
  "log1pexp x = dlog1p (dexp x)"

text \<open>
  A numeric matrix behind the beachmat accessor: its dimensions and its entries. The
  dimensions of an R matrix are R integers, so neither exceeds \<open>2\<^sup>3\<^sup>1 - 1\<close>.
  \<open>get_row\<close> fills a buffer with the \<open>ncol\<close> entries of a row, \<open>get_const_col\<close> gives
  the \<open>nrow\<close> entries of a column.
\<close>

typedef nmatrix =
  "{m :: nat \<times> nat \<times> (nat \<Rightarrow> nat \<Rightarrow> double). fst m \<le> 2147483647 \<and> fst (snd m) \<le> 2147483647}"
  by (rule exI[of _ "(0, 0, \<lambda>r c. Fin 0)"]) simp

setup_lifting type_definition_nmatrix

lift_definition nrow :: "nmatrix \<Rightarrow> nat" is "\<lambda>m. fst m" .

lift_definition ncol :: "nmatrix \<Rightarrow> nat" is "\<lambda>m. fst (snd m)" .

lift_definition elem :: "nmatrix \<Rightarrow> nat \<Rightarrow> nat \<Rightarrow> double" is "\<lambda>m. snd (snd m)" .

definition get_row :: "nmatrix \<Rightarrow> nat \<Rightarrow> double list" where
  "get_row m r = map (\<lambda>c. elem m r c) [0..<ncol m]"

definition get_const_col :: "nmatrix \<Rightarrow> nat \<Rightarrow> double list" where
  "get_const_col m c = map (\<lambda>r. elem m r c) [0..<nrow m]"

text \<open>
  The exceptions of the source are \<open>std::runtime_error\<close>s told apart by their message:
  the shape checks are \<open>DimensionMismatch\<close>, what \<open>check_numeric_scalar\<close> raises is
  \<open>InvalidArgument\<close>. \<open>OutOfBounds\<close> stands for an access outside a container (undefined
  behaviour of \<open>operator[]\<close>, or beachmat's index check), \<open>LengthError\<close> for the
  \<open>std::length_error\<close> of a \<open>resize\<close> beyond the maximal size.
\<close>

datatype error =
    DimensionMismatch string
  | InvalidArgument string
  | OutOfBounds
  | LengthError

text \<open>\<open>std::set<int>\<close>: an ascending list without duplicates.\<close>

fun set_insert :: "int \<Rightarrow> int list \<Rightarrow> int list" where
  "set_insert x [] = [x]"
| "set_insert x (y # ys) =
     (if x < y then x # y # ys else if x = y then y # ys else y # set_insert x ys)"

text \<open>Running a loop body over the iterations in order, stopping at the first exception.\<close>

fun run_loop :: "('i \<Rightarrow> 'st \<Rightarrow> error + 'st) \<Rightarrow> 'i list \<Rightarrow> 'st \<Rightarrow> error + 'st" where
  "run_loop body [] st = Inr st"
| "run_loop body (i # is) st =
     (case body i st of Inl e \<Rightarrow> Inl e | Inr st' \<Rightarrow> run_loop body is st')"

section \<open>Averaging the correction vectors of each MNN cell\<close>

text \<open>
  The state of the averaging block: \<open>averages\<close> (a vector of numeric vectors, an untouched
  slot is the empty vector), the counts \<open>number\<close> and the set \<open>mnncell\<close>. The entries
  of the index and the counts are C++ \<open>int\<close>s, here integers: a count is at most the
  number of rows of a matrix and does not overflow, and the one place where an entry of
  the index is incremented is written out.
\<close>

record avg_state =
  averages :: "double list list"
  number :: "int list"
  mnncell :: "int list"

text \<open>\<open>for (auto& t : target) { t += *cIt; ++cIt; }\<close>\<close>

definition add_into :: "double list \<Rightarrow> double list \<Rightarrow> double list" where
  "add_into target currow = map (\<lambda>(t, c). dadd t c) (zip target currow)"

text \<open>\<open>for (auto& t : target) { t /= num; }\<close>, the count converted to \<open>double\<close>.\<close>

definition divide_by :: "double list \<Rightarrow> int \<Rightarrow> double list" where
  "divide_by target num = map (\<lambda>t. ddiv t (Fin (real_of_int num))) target"

definition divide_averages :: "avg_state \<Rightarrow> avg_state" where
  "divide_averages st =
     foldl (\<lambda>s i. s\<lparr>averages := (averages s)[nat i := divide_by (averages s ! nat i) (number s ! nat i)]\<rparr>)
       st (mnncell st)"

subsection \<open>smooth\_gaussian\_kernel.cpp: containers of size ncells\<close>

text \<open>
  One iteration of the loop over the rows. \<open>averages[pair_dex]\<close> and \<open>number[pair_dex]\<close>
  are unchecked accesses to vectors of \<open>ncells\<close> elements.
\<close>

definition sgk_average_row :: "nmatrix \<Rightarrow> int list \<Rightarrow> nat \<Rightarrow> nat \<Rightarrow> avg_state \<Rightarrow> error + avg_state" where
  "sgk_average_row correction_vectors index ncells row st =
     (let currow = get_row correction_vectors row;
          pair_dex = index ! row
      in if pair_dex < 0 \<or> int ncells \<le> pair_dex then Inl OutOfBounds
         else
           let i = nat pair_dex;
               target = averages st ! i;
               number' = (number st)[i := number st ! i + 1]
           in if pair_dex \<in> set (mnncell st)
              then Inr (st\<lparr>averages := (averages st)[i := add_into target currow],
                           number := number'\<rparr>)
              else Inr (st\<lparr>averages := (averages st)[i := currow],
                           number := number',
                           mnncell := set_insert pair_dex (mnncell st)\<rparr>))"

definition sgk_averages :: "nmatrix \<Rightarrow> int list \<Rightarrow> nat \<Rightarrow> error + avg_state" where
  "sgk_averages correction_vectors index ncells =
     (case run_loop (sgk_average_row correction_vectors index ncells) [0..<nrow correction_vectors]
             \<lparr>averages = replicate ncells [], number = replicate ncells 0, mnncell = []\<rparr> of
        Inl e \<Rightarrow> Inl e
      | Inr st \<Rightarrow> Inr (divide_averages st))"

subsection \<open>mnn\_correction.cpp: deques that grow\<close>

text \<open>\<open>resize\<close> of a container that only ever grows here.\<close>

definition resize :: "'a list \<Rightarrow> nat \<Rightarrow> 'a \<Rightarrow> 'a list" where
  "resize xs n d = take n xs @ replicate (n - length xs) d"

text \<open>
  One iteration. The comparison \<open>i >= averages.size()\<close> converts \<open>i\<close> to an unsigned
  size, so a negative \<open>i\<close> enters both \<open>if\<close>s: for \<open>i = -1\<close> the deques are resized to
  \<open>i+1 = 0\<close> elements and \<open>averages[i]\<close> is then outside them, for \<open>i < -1\<close> the
  resize to a size beyond the maximum throws. So it does for the largest \<open>int\<close>: the
  deques, which hold at most \<open>i+1\<close> elements for an earlier \<open>i\<close>, are shorter, and
  \<open>i+1\<close> overflows. A slot whose vector is empty counts as new.
\<close>

definition mnn_average_row :: "nmatrix \<Rightarrow> int list \<Rightarrow> nat \<Rightarrow> avg_state \<Rightarrow> error + avg_state" where
  "mnn_average_row correction_vectors index row st =
     (let i = index ! row;
          currow = get_row correction_vectors row
      in if i < 0 then (if i = - 1 then Inl OutOfBounds else Inl LengthError)
         else if 2147483647 \<le> i then Inl LengthError
         else
           let n = nat i
           in if length (averages st) \<le> n \<or> averages st ! n = []
              then
                let grow = (length (averages st) \<le> n);
                    averages' = (if grow then resize (averages st) (n + 1) [] else averages st);
                    number' = (if grow then resize (number st) (n + 1) 0 else number st)
                in Inr \<lparr>averages = averages'[n := currow],
                        number = number'[n := 1],
                        mnncell = set_insert i (mnncell st)\<rparr>
              else Inr (st\<lparr>averages := (averages st)[n := add_into (averages st ! n) currow],
                           number := (number st)[n := number st ! n + 1]\<rparr>))"

definition mnn_averages :: "nmatrix \<Rightarrow> int list \<Rightarrow> error + avg_state" where
  "mnn_averages correction_vectors index =
     (case run_loop (mnn_average_row correction_vectors index) [0..<nrow correction_vectors]
             \<lparr>averages = [], number = [], mnncell = []\<rparr> of
        Inl e \<Rightarrow> Inl e
      | Inr st \<Rightarrow> Inr (divide_averages st))"

section \<open>Smoothing with the Gaussian kernel\<close>

text \<open>The squared distance between two cells, accumulated gene by gene.\<close>

definition sq_dist :: "double list \<Rightarrow> double list \<Rightarrow> double" where
  "sq_dist mnn_col other_col =
     foldl (\<lambda>curdist2 (a, b). let tmp = dsub a b in dadd curdist2 (dmul tmp tmp))
       (Fin 0) (zip mnn_col other_col)"

text \<open>
  The output matrix as its list of columns (one per cell, \<open>ngenes\<close> entries each), with
  the total probability of each cell. The source walks the column-major storage of
  \<open>output\<close> with one iterator, \<open>ngenes\<close> entries per cell: the averaged vector of an
  MNN cell has \<open>ngenes\<close> entries.
\<close>

record smooth_state =
  output_columns :: "double list list"
  totalprob :: "double list"

definition accumulate :: "double list \<Rightarrow> double list \<Rightarrow> smooth_state \<Rightarrow> smooth_state" where
  "accumulate correction mults st =
     \<lparr>output_columns = map (\<lambda>(col, mult). map (\<lambda>(out, corval). dadd out (dmul corval mult)) (zip col correction))
                 (zip (output_columns st) mults),
      totalprob = map (\<lambda>(t, mult). dadd t mult) (zip (totalprob st) mults)\<rparr>"

definition weights :: "double list \<Rightarrow> double \<Rightarrow> double list" where
  "weights distances2 density = map (\<lambda>d. dexp (dsub d density)) distances2"

text \<open>Dividing by the total probability.\<close>

definition divide_by_totalprob :: "smooth_state \<Rightarrow> double list list" where
  "divide_by_totalprob st = map (\<lambda>(curcol, total). map (\<lambda>val. ddiv val total) curcol) (zip (output_columns st) (totalprob st))"

definition initial_state :: "nat \<Rightarrow> nat \<Rightarrow> smooth_state" where
  "initial_state ngenes ncells =
     \<lparr>output_columns = replicate ncells (replicate ngenes (Fin 0)), totalprob = replicate ncells (Fin 0)\<rparr>"

subsection \<open>smooth\_gaussian\_kernel.cpp\<close>

text \<open>The distances of one MNN cell to every cell, divided by \<open>-s2\<close> as they are computed.\<close>

definition sgk_distances2 :: "nmatrix \<Rightarrow> double \<Rightarrow> nat \<Rightarrow> double list" where
  "sgk_distances2 mat s2 mnn =
     map (\<lambda>other. ddiv (sq_dist (get_const_col mat mnn) (get_const_col mat other)) (dneg s2))
       [0..<ncol mat]"

fun sgk_density :: "double list \<Rightarrow> int list \<Rightarrow> double \<Rightarrow> bool \<Rightarrow> double" where
  "sgk_density distances2 [] density starting = density"
| "sgk_density distances2 (other_mnn # rest) density starting =
     (if starting then sgk_density distances2 rest (distances2 ! nat other_mnn) False
      else sgk_density distances2 rest (logspace_add density (distances2 ! nat other_mnn)) False)"

text \<open>
  One iteration of the loop over the MNN cells. Every member of \<open>mnncell\<close> has been an
  index into the \<open>ncells\<close> slots of \<open>averages\<close> before, so the column read from
  \<open>mat\<close> and the accesses to \<open>distances2\<close> and \<open>averages\<close> are inside their containers.
\<close>

definition sgk_smooth_cell :: "nmatrix \<Rightarrow> double \<Rightarrow> avg_state \<Rightarrow> int \<Rightarrow> smooth_state \<Rightarrow> smooth_state" where
  "sgk_smooth_cell mat s2 avg mnn st =
     (let distances2 = sgk_distances2 mat s2 (nat mnn);
          density = sgk_density distances2 (mnncell avg) (Fin 0) True;
          correction = averages avg ! nat mnn
      in accumulate correction (weights distances2 density) st)"

text \<open>The state after the loop over the MNN cells, before the division.\<close>

definition sgk_accumulated :: "nmatrix \<Rightarrow> double \<Rightarrow> avg_state \<Rightarrow> nat \<Rightarrow> nat \<Rightarrow> smooth_state" where
  "sgk_accumulated mat s2 avg ngenes ncells =
     foldl (\<lambda>st mnn. sgk_smooth_cell mat s2 avg mnn st) (initial_state ngenes ncells) (mnncell avg)"

text \<open>
  The sigma argument is an R object that \<open>check_numeric_scalar\<close> (declared in utils.h,
  which is not among the sources) turns into a \<open>double\<close> or rejects; it is a parameter.
\<close>

definition smooth_gaussian_kernel ::
  "('s \<Rightarrow> string \<Rightarrow> error + double) \<Rightarrow> nmatrix \<Rightarrow> int list \<Rightarrow> nmatrix \<Rightarrow> 's \<Rightarrow> error + double list list" where
  "smooth_gaussian_kernel check_numeric_scalar vect index data sigma =
     (let npairs = nrow vect; ngenes = ncol vect
      in if npairs \<noteq> length index
         then Inl (DimensionMismatch ''number of rows in vect should be equal to length of index'')
         else
           let ncells = ncol data
           in (case check_numeric_scalar sigma ''sigma'' of
                 Inl e \<Rightarrow> Inl e
               | Inr s2 \<Rightarrow>
                  (case sgk_averages vect index ncells of
                     Inl e \<Rightarrow> Inl e
                   | Inr avg \<Rightarrow> Inr (divide_by_totalprob (sgk_accumulated data s2 avg ngenes ncells)))))"

subsection \<open>mnn\_correction.cpp\<close>

text \<open>All squared distances first, then a second pass dividing them by \<open>-s2\<close>.\<close>

definition mnn_distances2 :: "nmatrix \<Rightarrow> double \<Rightarrow> nat \<Rightarrow> double list" where
  "mnn_distances2 mat s2 mnn =
     map (\<lambda>d2. ddiv d2 (dneg s2))
       (map (\<lambda>other. sq_dist (get_const_col mat mnn) (get_const_col mat other)) [0..<ncol mat])"

text \<open>
  The density starts as \<open>NA_REAL\<close> and \<open>ISNA\<close> tells the first iteration.
  \<open>distances2[other_mnn]\<close> is an unchecked access to a vector of \<open>ncells\<close> elements.
\<close>

fun mnn_density :: "double list \<Rightarrow> int list \<Rightarrow> double \<Rightarrow> error + double" where
  "mnn_density distances2 [] density = Inr density"
| "mnn_density distances2 (other_mnn # rest) density =
     (if other_mnn < 0 \<or> int (length distances2) \<le> other_mnn then Inl OutOfBounds
      else if ISNA density then mnn_density distances2 rest (distances2 ! nat other_mnn)
      else
        let to_add = distances2 ! nat other_mnn;
            larger = dmax to_add density;
            diff = dabs (dsub to_add density)
        in mnn_density distances2 rest (dadd larger (log1pexp (dneg diff))))"

text \<open>\<open>mat->get_const_col(mnn, ...)\<close> is refused by beachmat outside the columns of \<open>mat\<close>.\<close>

definition mnn_smooth_cell :: "nmatrix \<Rightarrow> double \<Rightarrow> avg_state \<Rightarrow> int \<Rightarrow> smooth_state \<Rightarrow> error + smooth_state" where
  "mnn_smooth_cell mat s2 avg mnn st =
     (if mnn < 0 \<or> int (ncol mat) \<le> mnn then Inl OutOfBounds
      else
        let distances2 = mnn_distances2 mat s2 (nat mnn)
        in (case mnn_density distances2 (mnncell avg) NA of
              Inl e \<Rightarrow> Inl e
            | Inr density \<Rightarrow>
                (let correction = averages avg ! nat mnn
                 in Inr (accumulate correction (weights distances2 density) st))))"

text \<open>The loop over the MNN cells, before the division.\<close>

definition mnn_accumulated :: "nmatrix \<Rightarrow> double \<Rightarrow> avg_state \<Rightarrow> nat \<Rightarrow> nat \<Rightarrow> error + smooth_state" where
  "mnn_accumulated mat s2 avg ngenes ncells =
     run_loop (mnn_smooth_cell mat s2 avg) (mnncell avg) (initial_state ngenes ncells)"

definition smooth_gaussian_kernel_mnn ::
  "('s \<Rightarrow> string \<Rightarrow> error + double) \<Rightarrow> nmatrix \<Rightarrow> int list \<Rightarrow> nmatrix \<Rightarrow> 's \<Rightarrow> error + double list list" where
  "smooth_gaussian_kernel_mnn check_numeric_scalar vect index data sigma =
     (let npairs = nrow vect; ngenes = ncol vect
      in if npairs \<noteq> length index
         then Inl (DimensionMismatch ''number of rows in vect should be equal to length of index'')
         else
           (case mnn_averages vect index of
              Inl e \<Rightarrow> Inl e
            | Inr avg \<Rightarrow>
                (let ncells = ncol data
                 in (case check_numeric_scalar sigma ''sigma'' of
                       Inl e \<Rightarrow> Inl e
                     | Inr s2 \<Rightarrow>
                        (case mnn_accumulated data s2 avg ngenes ncells of
                           Inl e \<Rightarrow> Inl e
                         | Inr st \<Rightarrow> Inr (divide_by_totalprob st))))))"

section \<open>Variance adjustment with weighted distributions\<close>

text \<open>\<open>std::inner_product(first1, last1, first2, 0.0)\<close>\<close>

definition inner_product :: "double list \<Rightarrow> double list \<Rightarrow> double" where
  "inner_product xs ys = foldl (\<lambda>acc (x, y). dadd acc (dmul x y)) (Fin 0) (zip xs ys)"

text \<open>
  The squared distance from \<open>point\<close> to the line through \<open>ref\<close> along \<open>grad\<close>. The
  buffer \<open>working\<close> (one entry per gene) is overwritten by every call.
\<close>

definition sq_distance_to_line :: "double list \<Rightarrow> double list \<Rightarrow> double list \<Rightarrow> double" where
  "sq_distance_to_line ref grad point =
     (let working = map (\<lambda>(r, p). dsub r p) (zip ref point);
          scale = inner_product working grad
      in foldl (\<lambda>dist (w, g). let w' = dsub w (dmul scale g) in dadd dist (dmul w' w'))
           (Fin 0) (zip working grad))"

text \<open>The l2 norm of a gradient row and the row divided by it.\<close>

definition l2norm_of :: "double list \<Rightarrow> double" where
  "l2norm_of grad = dsqrt (foldl (\<lambda>l2norm g. dadd l2norm (dmul g g)) (Fin 0) grad)"

definition unit_vector :: "double list \<Rightarrow> double list" where
  "unit_vector grad = map (\<lambda>g. ddiv g (l2norm_of grad)) grad"

text \<open>
  The cumulative probability of a cell in its own batch: the pair \<open>(prob2, totalprob2)\<close>
  after the loop over \<open>same\<close>.
\<close>

definition own_batch_step ::
  "nmatrix \<Rightarrow> double \<Rightarrow> nat \<Rightarrow> double list \<Rightarrow> double list \<Rightarrow> double \<Rightarrow> double \<times> double \<Rightarrow> nat \<Rightarrow> double \<times> double" where
  "own_batch_step d2 s2 cell curcell grad curproj acc same =
     (case acc of (prob2, totalprob2) \<Rightarrow>
        if same = cell then (dadd prob2 (Fin 1), dadd totalprob2 (Fin 1))
        else
          let samecell = get_const_col d2 same;
              sameproj = inner_product grad samecell;
              samedist = sq_distance_to_line curcell grad samecell;
              sameprob = dexp (ddiv (dneg samedist) s2)
          in (if dle sameproj curproj then dadd prob2 sameprob else prob2,
              dadd totalprob2 sameprob))"

definition own_batch :: "nmatrix \<Rightarrow> double \<Rightarrow> nat \<Rightarrow> double list \<Rightarrow> double list \<Rightarrow> double \<Rightarrow> double \<times> double" where
  "own_batch d2 s2 cell curcell grad curproj =
     foldl (own_batch_step d2 s2 cell curcell grad curproj) (Fin 0, Fin 0) [0..<ncol d2]"

text \<open>The coordinates and weights of the reference batch, \<open>distance1\<close> before sorting.\<close>

definition reference_batch :: "nmatrix \<Rightarrow> double \<Rightarrow> double list \<Rightarrow> double list \<Rightarrow> (double \<times> double) list" where
  "reference_batch d1 s2 curcell grad =
     map (\<lambda>other.
            let othercell = get_const_col d1 other;
                otherdist = sq_distance_to_line curcell grad othercell
            in (inner_product grad othercell, dexp (ddiv (dneg otherdist) s2)))
       [0..<ncol d1]"

definition sum_weights :: "(double \<times> double) list \<Rightarrow> double" where
  "sum_weights distance1 = foldl (\<lambda>totalprob1 val. dadd totalprob1 (snd val)) (Fin 0) distance1"

text \<open>
  \<open>std::sort\<close> with the \<open>operator<\<close> of \<open>std::pair\<close>. Where that is a strict weak
  order (no not-a-number among the compared values) the sorted vector is determined and an
  insertion sort computes it; with a not-a-number the standard leaves \<open>std::sort\<close>
  undefined, and the insertion sort stands for whatever order comes out.
\<close>

definition pair_less :: "double \<times> double \<Rightarrow> double \<times> double \<Rightarrow> bool" where
  "pair_less a b = (dless (fst a) (fst b) \<or> (\<not> dless (fst b) (fst a) \<and> dless (snd a) (snd b)))"

fun insert_sorted :: "double \<times> double \<Rightarrow> (double \<times> double) list \<Rightarrow> (double \<times> double) list" where
  "insert_sorted x [] = [x]"
| "insert_sorted x (y # ys) = (if pair_less x y then x # y # ys else y # insert_sorted x ys)"

definition std_sort :: "(double \<times> double) list \<Rightarrow> (double \<times> double) list" where
  "std_sort xs = foldr insert_sorted xs []"

text \<open>The walk over the sorted pairs: the first coordinate whose cumulative weight reaches the target.\<close>

fun find_quantile :: "(double \<times> double) list \<Rightarrow> double \<Rightarrow> double \<Rightarrow> double \<Rightarrow> double" where
  "find_quantile [] cumulative target ref_quan = ref_quan"
| "find_quantile (val # rest) cumulative target ref_quan =
     (let cumulative' = dadd cumulative (snd val)
      in if dle target cumulative' then fst val
         else find_quantile rest cumulative' target ref_quan)"

text \<open>What one iteration of the loop over the cells of the second batch computes.\<close>

record cell_result =
  l2norm :: double
  curproj :: double
  distance1 :: "(double \<times> double) list"
  target :: double
  ref_quan :: double
  scaling :: double

text \<open>
  The local variables at the end of one iteration: \<open>distance1\<close> is the sorted vector,
  \<open>scaling\<close> the value stored in \<open>output[cell]\<close>.
\<close>

definition adjust_cell :: "nmatrix \<Rightarrow> nmatrix \<Rightarrow> nmatrix \<Rightarrow> double \<Rightarrow> nat \<Rightarrow> cell_result" where
  "adjust_cell d1 d2 v s2 cell =
     (let curcell = get_const_col d2 cell;
          l2norm = l2norm_of (get_row v cell);
          grad = unit_vector (get_row v cell);
          curproj = inner_product grad curcell;
          (prob2, totalprob2) = own_batch d2 s2 cell curcell grad curproj;
          prob2 = ddiv prob2 totalprob2;
          distance1 = reference_batch d1 s2 curcell grad;
          totalprob1 = sum_weights distance1;
          distance1 = std_sort distance1;
          target = dmul prob2 totalprob1;
          ref_quan = (if ncol d1 \<noteq> 0 then fst (last distance1) else NA);
          ref_quan = find_quantile distance1 (Fin 0) target ref_quan
      in \<lparr>l2norm = l2norm, curproj = curproj, distance1 = distance1, target = target,
          ref_quan = ref_quan, scaling = ddiv (dsub ref_quan curproj) l2norm\<rparr>)"

definition adjust_shift_variance ::
  "('s \<Rightarrow> string \<Rightarrow> error + double) \<Rightarrow> nmatrix \<Rightarrow> nmatrix \<Rightarrow> nmatrix \<Rightarrow> 's \<Rightarrow> error + double list" where
  "adjust_shift_variance check_numeric_scalar data1 data2 vect sigma =
     (let ngenes = nrow data1
      in if ngenes \<noteq> nrow data2 \<or> ngenes \<noteq> ncol vect
         then Inl (DimensionMismatch ''number of genes do not match up between matrices'')
         else
           let ncells2 = ncol data2
           in if ncells2 \<noteq> nrow vect
              then Inl (DimensionMismatch ''number of cells do not match up between matrices'')
              else (case check_numeric_scalar sigma ''sigma'' of
                      Inl e \<Rightarrow> Inl e
                    | Inr s2 \<Rightarrow> Inr (map (\<lambda>cell. scaling (adjust_cell data1 data2 vect s2 cell)) [0..<ncells2])))"

section \<open>The scalar check\<close>

text \<open>
  Modelled from the spec: \<open>check_numeric_scalar\<close> is declared in utils.h, which is not
  among the sources. The specification has a call with a bandwidth \<open>\<sigma>\<^sup>2 \<le> 0\<close> fail fast
  as an InvalidArgument (section 7); the R object is taken to be the number it holds, and
  every other number is returned as it is.
\<close>

definition check_numeric_scalar :: "double \<Rightarrow> string \<Rightarrow> error + double" where
  "check_numeric_scalar sigma arg =
     (if dle sigma (Fin 0) then Inl (InvalidArgument arg) else Inr sigma)"

text \<open>Matrices written row by row, for concrete inputs.\<close>

lift_definition matrix_of_rows :: "nat \<Rightarrow> double list list \<Rightarrow> nmatrix" is
  "\<lambda>nc rows. if length rows \<le> 2147483647 \<and> nc \<le> 2147483647
     then (length rows, nc, \<lambda>r c. rows ! r ! c) else (0, 0, \<lambda>r c. Fin 0)"
  by simp

section \<open>Notions used to state the properties\<close>

definition rows_before :: "int list \<Rightarrow> int \<Rightarrow> nat \<Rightarrow> nat list" where
  "rows_before index i n = filter (\<lambda>r. index ! r = i) [0..<n]"

definition vector_sum :: "double list list \<Rightarrow> double list" where
  "vector_sum rows = foldl add_into (hd rows) (tl rows)"

definition sgk_inv :: "nmatrix \<Rightarrow> int list \<Rightarrow> nat \<Rightarrow> nat \<Rightarrow> avg_state \<Rightarrow> bool" where
  "sgk_inv vect index ncells n st \<longleftrightarrow>
     length (averages st) = ncells \<and> length (number st) = ncells \<and>
     sorted_wrt (<) (mnncell st) \<and> set (mnncell st) = set (take n index) \<and>
     (\<forall>i<ncells. number st ! i = int (length (rows_before index (int i) n))) \<and>
     (\<forall>i<ncells. rows_before index (int i) n \<noteq> [] \<longrightarrow>
         averages st ! i = vector_sum (map (get_row vect) (rows_before index (int i) n)))"

definition mean_rows :: "nmatrix \<Rightarrow> int list \<Rightarrow> int \<Rightarrow> double list" where
  "mean_rows vect index i =
     divide_by (vector_sum (map (get_row vect) (rows_before index i (length index))))
       (int (length (rows_before index i (length index))))"

definition mnn_inv :: "nmatrix \<Rightarrow> int list \<Rightarrow> nat \<Rightarrow> avg_state \<Rightarrow> bool" where
  "mnn_inv vect index n st \<longleftrightarrow>
     length (number st) = length (averages st) \<and>
     sorted_wrt (<) (mnncell st) \<and> set (mnncell st) = set (take n index) \<and>
     (\<forall>j<length (averages st). int j \<notin> set (take n index) \<longrightarrow> averages st ! j = []) \<and>
     (\<forall>i\<in>set (take n index). nat i < length (averages st) \<and>
         averages st ! nat i = vector_sum (map (get_row vect) (rows_before index i n))) \<and>
     (0 < ncol vect \<longrightarrow> (\<forall>i\<in>set (take n index). number st ! nat i = int (length (rows_before index i n))))"

text \<open>
  The rows sharing an identifier, the sum of a list of numbers, and the arithmetic mean,
  coordinate by coordinate, of the correction vectors of the rows sharing an identifier.
\<close>

definition rows_sharing :: "int list \<Rightarrow> int \<Rightarrow> nat list" where
  "rows_sharing index i = filter (\<lambda>r. index ! r = i) [0..<length index]"

definition dsum :: "double list \<Rightarrow> double" where
  "dsum xs = foldl dadd (Fin 0) xs"

definition arithmetic_mean :: "nmatrix \<Rightarrow> int list \<Rightarrow> int \<Rightarrow> double list" where
  "arithmetic_mean vect index i =
     map (\<lambda>g. ddiv (dsum (map (\<lambda>r. elem vect r g) (rows_sharing index i)))
                 (Fin (real (length (rows_sharing index i)))))
       [0..<ncol vect]"

text \<open>
  Whether the cumulative weight reaches the target somewhere along the sorted pairs, and
  the projections of the cells of the reference batch on the unit gradient of a cell.
\<close>

fun reaches :: "(double \<times> double) list \<Rightarrow> double \<Rightarrow> double \<Rightarrow> bool" where
  "reaches [] cumulative goal = False"
| "reaches (val # rest) cumulative goal =
     (let cumulative' = dadd cumulative (snd val)
      in dle goal cumulative' \<or> reaches rest cumulative' goal)"

definition reference_projections :: "nmatrix \<Rightarrow> nmatrix \<Rightarrow> nat \<Rightarrow> double list" where
  "reference_projections d1 v cell =
     map (\<lambda>other. inner_product (unit_vector (get_row v cell)) (get_const_col d1 other)) [0..<ncol d1]"

text \<open>
  With a single MNN cell \<open>a\<close>, the weight of a cell \<open>s\<close> (the exponential of its logged
  probability minus the density, which is then the logged probability of \<open>a\<close> itself),
  and what the accumulation and the division make of an averaged vector under a weight.
\<close>

definition single_anchor_weight :: "nmatrix \<Rightarrow> double \<Rightarrow> nat \<Rightarrow> nat \<Rightarrow> double" where
  "single_anchor_weight mat s2 a s =
     dexp (dsub (sgk_distances2 mat s2 a ! s) (sgk_distances2 mat s2 a ! a))"

definition weighted_and_divided :: "double list \<Rightarrow> double \<Rightarrow> double list" where
  "weighted_and_divided correction mult =
     map (\<lambda>corval. ddiv (dadd (Fin 0) (dmul corval mult)) (dadd (Fin 0) mult)) correction"


text \<open>
  Two doubles are the same number when they are equal or when neither is a number: which
  of \<open>NaN\<close> and \<open>NA\<close> a computation returns is a matter of the payload only. A state of
  the smoothing loop has a shape (the number of columns and their length), and it may hold
  nothing but values that are not numbers.
\<close>

definition same_number :: "double \<Rightarrow> double \<Rightarrow> bool" where
  "same_number x y \<longleftrightarrow> x = y \<or> (is_nan x \<and> is_nan y)"

definition has_shape :: "nat \<Rightarrow> nat \<Rightarrow> smooth_state \<Rightarrow> bool" where
  "has_shape ngenes ncells st \<longleftrightarrow>
     length (output_columns st) = ncells \<and> length (totalprob st) = ncells \<and>
     (\<forall>col\<in>set (output_columns st). length col = ngenes)"

definition no_numbers :: "smooth_state \<Rightarrow> bool" where
  "no_numbers st \<longleftrightarrow>
     (\<forall>col\<in>set (output_columns st). \<forall>val\<in>set col. is_nan val) \<and>
     (\<forall>total\<in>set (totalprob st). is_nan total)"
section \<open>Matrices\<close>

lemma nrow_bound: "nrow m \<le> 2147483647"
  by transfer simp

lemma ncol_bound: "ncol m \<le> 2147483647"
  by transfer simp

lemma below_ncol_small: "i < int (ncol m) \<Longrightarrow> i < 2147483647"
  using ncol_bound[of m] by simp

lemma nrow_matrix_of_rows:
  "length rows \<le> 16 \<Longrightarrow> nc \<le> 16 \<Longrightarrow> nrow (matrix_of_rows nc rows) = length rows"
  by transfer simp

lemma ncol_matrix_of_rows:
  "length rows \<le> 16 \<Longrightarrow> nc \<le> 16 \<Longrightarrow> ncol (matrix_of_rows nc rows) = nc"
  by transfer simp

lemma elem_matrix_of_rows:
  "length rows \<le> 16 \<Longrightarrow> nc \<le> 16 \<Longrightarrow> elem (matrix_of_rows nc rows) r c = rows ! r ! c"
  by transfer simp

lemmas matrix_of_rows_simps = nrow_matrix_of_rows ncol_matrix_of_rows elem_matrix_of_rows

section \<open>The averaging loops\<close>

lemma run_loop_append:
  "run_loop body (xs @ ys) st =
     (case run_loop body xs st of Inl e \<Rightarrow> Inl e | Inr st' \<Rightarrow> run_loop body ys st')"
  by (induction xs arbitrary: st) (auto split: sum.splits)

lemma set_set_insert [simp]: "set (set_insert x xs) = insert x (set xs)"
  by (induction xs) auto

lemma sorted_set_insert: "sorted_wrt (<) xs \<Longrightarrow> sorted_wrt (<) (set_insert x xs)"
  by (induction xs) auto

lemma dadd_zero_left [simp]: "dadd (Fin 0) x = x"
  by (cases x) auto

lemma rows_before_Suc:
  "rows_before index i (Suc n) = (if index ! n = i then rows_before index i n @ [n] else rows_before index i n)"
  by (simp add: rows_before_def)

lemma rows_before_empty_iff: "n \<le> length index \<Longrightarrow> rows_before index i n = [] \<longleftrightarrow> i \<notin> set (take n index)"
  by (auto simp: rows_before_def filter_empty_conv in_set_conv_nth)

lemma vector_sum_snoc: "rows \<noteq> [] \<Longrightarrow> vector_sum (rows @ [r]) = add_into (vector_sum rows) r"
  by (cases rows) (auto simp: vector_sum_def)

lemma vector_sum_map_snoc:
  "rs \<noteq> [] \<Longrightarrow> vector_sum (map f (rs @ [r])) = add_into (vector_sum (map f rs)) (f r)"
  by (simp add: vector_sum_snoc)

lemma vector_sum_single [simp]: "vector_sum [r] = r"
  by (simp add: vector_sum_def)

lemma take_Suc_set: "n < length xs \<Longrightarrow> set (take (Suc n) xs) = insert (xs ! n) (set (take n xs))"
  by (simp add: take_Suc_conv_app_nth)

lemma sgk_inv_init: "sgk_inv vect index ncells 0 \<lparr>averages = replicate ncells [], number = replicate ncells 0, mnncell = []\<rparr>"
  by (simp add: sgk_inv_def rows_before_def)

lemma sgk_average_row_inv:
  assumes inv: "sgk_inv vect index ncells n st" and n: "n < length index"
    and rng: "0 \<le> index ! n" "index ! n < int ncells"
  shows "\<exists>st'. sgk_average_row vect index ncells n st = Inr st' \<and> sgk_inv vect index ncells (Suc n) st'"
proof -
  define i where "i = nat (index ! n)"
  have i: "i < ncells" "int i = index ! n" using rng by (auto simp: i_def)
  have seen: "index ! n \<in> set (mnncell st) \<longleftrightarrow> rows_before index (int i) n \<noteq> []"
    using inv n i by (simp add: sgk_inv_def rows_before_empty_iff)
  have other: "\<And>j. j \<noteq> i \<Longrightarrow> rows_before index (int j) (Suc n) = rows_before index (int j) n"
    using i by (auto simp: rows_before_Suc)
  have self: "rows_before index (index ! n) (Suc n) = rows_before index (index ! n) n @ [n]"
    by (simp add: rows_before_Suc)
  show ?thesis
  proof (cases "index ! n \<in> set (mnncell st)")
    case True
    then have ne: "rows_before index (int i) n \<noteq> []" using seen by simp
    have step: "sgk_average_row vect index ncells n st =
        Inr (st\<lparr>averages := (averages st)[i := add_into (averages st ! i) (get_row vect n)],
                number := (number st)[i := number st ! i + 1]\<rparr>)"
      using True rng by (simp add: sgk_average_row_def Let_def i_def)
    have "sgk_inv vect index ncells (Suc n)
        (st\<lparr>averages := (averages st)[i := add_into (averages st ! i) (get_row vect n)],
                number := (number st)[i := number st ! i + 1]\<rparr>)"
      using inv n i True ne
      apply (simp add: sgk_inv_def take_Suc_set insert_absorb)
      apply (intro conjI allI impI)
      subgoal for j by (cases "j = i") (simp_all add: other self)
      subgoal for j by (cases "j = i") (simp_all add: other self vector_sum_snoc)
      done
    then show ?thesis using step by simp
  next
    case False
    then have e: "rows_before index (int i) n = []" using seen by simp
    have step: "sgk_average_row vect index ncells n st =
        Inr (st\<lparr>averages := (averages st)[i := get_row vect n],
                number := (number st)[i := number st ! i + 1],
                mnncell := set_insert (index ! n) (mnncell st)\<rparr>)"
      using False rng by (simp add: sgk_average_row_def Let_def i_def)
    have "sgk_inv vect index ncells (Suc n)
        (st\<lparr>averages := (averages st)[i := get_row vect n],
                number := (number st)[i := number st ! i + 1],
                mnncell := set_insert (index ! n) (mnncell st)\<rparr>)"
      using inv n i False e
      apply (simp add: sgk_inv_def take_Suc_set sorted_set_insert)
      apply (intro conjI allI impI)
      subgoal for j by (cases "j = i") (simp_all add: other self)
      subgoal for j by (cases "j = i") (simp_all add: other self)
      done
    then show ?thesis using step by simp
  qed
qed

lemma sgk_loop_inv:
  assumes "n \<le> length index" and "\<forall>r<n. 0 \<le> index ! r \<and> index ! r < int ncells"
  shows "\<exists>st. run_loop (sgk_average_row vect index ncells) [0..<n]
             \<lparr>averages = replicate ncells [], number = replicate ncells 0, mnncell = []\<rparr> = Inr st
           \<and> sgk_inv vect index ncells n st"
  using assms
proof (induction n)
  case 0
  then show ?case by (simp add: sgk_inv_init)
next
  case (Suc n)
  then obtain st where st: "run_loop (sgk_average_row vect index ncells) [0..<n]
             \<lparr>averages = replicate ncells [], number = replicate ncells 0, mnncell = []\<rparr> = Inr st"
      "sgk_inv vect index ncells n st" by auto
  from Suc.prems have "n < length index" "0 \<le> index ! n" "index ! n < int ncells" by auto
  from sgk_average_row_inv[OF st(2) this] obtain st' where
    "sgk_average_row vect index ncells n st = Inr st'" "sgk_inv vect index ncells (Suc n) st'" by auto
  then show ?case using st(1) by (simp add: run_loop_append)
qed

lemma divide_loop:
  assumes "distinct is" and "\<forall>i\<in>set is. 0 \<le> i \<and> nat i < length (averages st)"
  shows "(let r = foldl (\<lambda>s i. s\<lparr>averages := (averages s)[nat i := divide_by (averages s ! nat i) (number s ! nat i)]\<rparr>) st is
          in number r = number st \<and> mnncell r = mnncell st \<and> length (averages r) = length (averages st) \<and>
             (\<forall>j<length (averages st). averages r ! j =
                 (if int j \<in> set is then divide_by (averages st ! j) (number st ! j) else averages st ! j)))"
  using assms
proof (induction "is" arbitrary: st)
  case Nil
  then show ?case by simp
next
  case (Cons i "is")
  let ?st = "st\<lparr>averages := (averages st)[nat i := divide_by (averages st ! nat i) (number st ! nat i)]\<rparr>"
  have d: "distinct is" "i \<notin> set is" using Cons.prems by auto
  have r: "\<forall>k\<in>set is. 0 \<le> k \<and> nat k < length (averages ?st)" using Cons.prems by auto
  have i: "0 \<le> i" "nat i < length (averages st)" using Cons.prems by auto
  note IH = Cons.IH[OF d(1) r, unfolded Let_def]
  show ?case
    unfolding Let_def foldl_Cons
    apply (intro conjI)
    subgoal using IH by simp
    subgoal using IH by simp
    subgoal using IH by simp
    subgoal
    proof (intro allI impI)
      fix j assume j: "j < length (averages st)"
      show "averages (foldl (\<lambda>s i. s\<lparr>averages := (averages s)[nat i := divide_by (averages s ! nat i) (number s ! nat i)]\<rparr>) ?st is) ! j =
         (if int j \<in> set (i # is) then divide_by (averages st ! j) (number st ! j) else averages st ! j)"
      proof (cases "j = nat i")
        case True
        then have "int j = i" using i by simp
        then have "int j \<notin> set is" using d by simp
        then show ?thesis using IH j True i by simp
      next
        case False
        then have "int j \<noteq> i" using i by auto
        then show ?thesis using IH j False by simp
      qed
    qed
    done
qed

lemma sorted_lt_distinct: "sorted_wrt (<) (xs :: int list) \<Longrightarrow> distinct xs"
  by (induction xs) auto

lemma sgk_averages_char:
  assumes len: "nrow vect = length index" and rng: "\<forall>i\<in>set index. 0 \<le> i \<and> i < int ncells"
  shows "\<exists>avg. sgk_averages vect index ncells = Inr avg \<and> length (averages avg) = ncells \<and>
           sorted_wrt (<) (mnncell avg) \<and> set (mnncell avg) = set index \<and>
           (\<forall>i\<in>set index. averages avg ! nat i = mean_rows vect index i \<and>
               number avg ! nat i = int (length (rows_before index i (length index))))"
proof -
  have "\<forall>r<length index. 0 \<le> index ! r \<and> index ! r < int ncells" using rng by simp
  from sgk_loop_inv[OF order_refl this, of vect] obtain st where
    st: "run_loop (sgk_average_row vect index ncells) [0..<length index]
             \<lparr>averages = replicate ncells [], number = replicate ncells 0, mnncell = []\<rparr> = Inr st"
    and inv: "sgk_inv vect index ncells (length index) st" by blast
  have res: "sgk_averages vect index ncells = Inr (divide_averages st)"
    using st len by (simp add: sgk_averages_def)
  have I: "length (averages st) = ncells" "sorted_wrt (<) (mnncell st)" "set (mnncell st) = set index"
    "\<forall>i<ncells. number st ! i = int (length (rows_before index (int i) (length index)))"
    "\<forall>i<ncells. rows_before index (int i) (length index) \<noteq> [] \<longrightarrow>
         averages st ! i = vector_sum (map (get_row vect) (rows_before index (int i) (length index)))"
    using inv by (simp_all add: sgk_inv_def)
  have dl: "number (divide_averages st) = number st \<and> mnncell (divide_averages st) = mnncell st \<and>
        length (averages (divide_averages st)) = length (averages st) \<and>
        (\<forall>j<length (averages st). averages (divide_averages st) ! j =
                 (if int j \<in> set (mnncell st) then divide_by (averages st ! j) (number st ! j) else averages st ! j))"
  proof -
    have h: "\<forall>i\<in>set (mnncell st). 0 \<le> i \<and> nat i < length (averages st)"
      using I rng by auto
    show ?thesis
      using divide_loop[OF sorted_lt_distinct[OF I(2)] h] by (simp add: divide_averages_def Let_def)
  qed
  have "\<forall>i\<in>set index. averages (divide_averages st) ! nat i = mean_rows vect index i \<and>
               number (divide_averages st) ! nat i = int (length (rows_before index i (length index)))"
  proof
    fix i assume i: "i \<in> set index"
    then have b: "0 \<le> i" "nat i < ncells" "int (nat i) = i" using rng by auto
    have ne: "rows_before index i (length index) \<noteq> []" using i by (simp add: rows_before_empty_iff)
    show "averages (divide_averages st) ! nat i = mean_rows vect index i \<and>
               number (divide_averages st) ! nat i = int (length (rows_before index i (length index)))"
      using dl I b i ne by (simp add: mean_rows_def)
  qed
  then show ?thesis using res dl I by simp
qed

lemma length_get_row [simp]: "length (get_row m r) = ncol m"
  by (simp add: get_row_def)

lemma length_add_into [simp]: "length (add_into a b) = min (length a) (length b)"
  by (simp add: add_into_def)

lemma length_vector_sum:
  "rs \<noteq> [] \<Longrightarrow> length (vector_sum (map (get_row vect) rs)) = ncol vect"
  by (induction rs rule: rev_nonempty_induct) (simp_all add: vector_sum_snoc)

lemma mnn_inv_init: "mnn_inv vect index 0 \<lparr>averages = [], number = [], mnncell = []\<rparr>"
  by (simp add: mnn_inv_def)

lemma mnn_average_row_inv:
  assumes inv: "mnn_inv vect index n st" and n: "n < length index"
    and nonneg: "\<forall>r\<le>n. 0 \<le> index ! r" and small: "index ! n < 2147483647"
  shows "\<exists>st'. mnn_average_row vect index n st = Inr st' \<and> mnn_inv vect index (Suc n) st'"
proof -
  define i where "i = index ! n"
  define m where "m = nat i"
  define seen where "seen = set (take n index)"
  have i0: "0 \<le> i" "\<not> 2147483647 \<le> i" using nonneg small by (simp_all add: i_def)
  have seen0: "\<And>k. k \<in> seen \<Longrightarrow> 0 \<le> k"
    using nonneg n by (auto simp: seen_def in_set_conv_nth)
  have natneq: "nat k \<noteq> m" if "k \<in> seen" "k \<noteq> i" for k
    using seen0[OF that(1)] i0(1) that(2) by (simp add: m_def)
  have intm: "\<And>j. int j = i \<longleftrightarrow> j = m" using i0(1) by (auto simp: m_def)
  have I: "length (number st) = length (averages st)" "sorted_wrt (<) (mnncell st)"
    "set (mnncell st) = seen"
    "\<And>j. j < length (averages st) \<Longrightarrow> int j \<notin> seen \<Longrightarrow> averages st ! j = []"
    "\<And>k. k \<in> seen \<Longrightarrow> nat k < length (averages st)"
    "\<And>k. k \<in> seen \<Longrightarrow> averages st ! nat k = vector_sum (map (get_row vect) (rows_before index k n))"
    "\<And>k. 0 < ncol vect \<Longrightarrow> k \<in> seen \<Longrightarrow> number st ! nat k = int (length (rows_before index k n))"
    using inv by (simp_all add: mnn_inv_def seen_def)
  have seen': "set (take (Suc n) index) = insert i seen"
    using n by (simp add: take_Suc_set i_def seen_def)
  have other: "\<And>k. k \<noteq> i \<Longrightarrow> rows_before index k (Suc n) = rows_before index k n"
    by (auto simp: rows_before_Suc i_def)
  have self: "rows_before index i (Suc n) = rows_before index i n @ [n]"
    by (simp add: rows_before_Suc i_def)
  have unseen: "i \<notin> seen \<Longrightarrow> rows_before index i n = []"
    using n by (simp add: rows_before_empty_iff seen_def)
  have seen_ne: "i \<in> seen \<Longrightarrow> rows_before index i n \<noteq> []"
    using n by (simp add: rows_before_empty_iff seen_def)
  have seen_len: "i \<in> seen \<Longrightarrow> length (averages st ! m) = ncol vect"
    using I(6)[of i] seen_ne by (simp add: length_vector_sum m_def)
  let ?currow = "get_row vect n"
  consider (A) "length (averages st) \<le> m"
    | (B) "m < length (averages st)" "averages st ! m = []"
    | (C) "m < length (averages st)" "averages st ! m \<noteq> []" by linarith
  then show ?thesis
  proof cases
    case A
    then have ns: "i \<notin> seen" using I(5)[of i] by (auto simp: m_def)
    let ?st' = "\<lparr>averages = (resize (averages st) (m + 1) [])[m := ?currow],
                 number = (resize (number st) (m + 1) 0)[m := 1],
                 mnncell = set_insert i (mnncell st)\<rparr>"
    have step: "mnn_average_row vect index n st = Inr ?st'"
      using A i0 by (simp add: mnn_average_row_def Let_def i_def[symmetric] m_def[symmetric])
    have rs: "resize (averages st) (Suc m) [] = averages st @ replicate (Suc m - length (averages st)) []"
      using A by (simp add: resize_def)
    have rn: "resize (number st) (Suc m) 0 = number st @ replicate (Suc m - length (averages st)) 0"
      using A I(1) by (simp add: resize_def)
    have len: "length (resize (averages st) (Suc m) []) = Suc m" using A by (simp add: rs)
    have J1: "length (number ?st') = length (averages ?st')" using A I(1) by (simp add: rs rn)
    have J2: "sorted_wrt (<) (mnncell ?st')" using I(2) by (simp add: sorted_set_insert)
    have J2': "set (mnncell ?st') = insert i seen" using I(3) by simp
    have J3: "averages ?st' ! j = []" if j: "j < length (averages ?st')" "int j \<notin> insert i seen" for j
    proof -
      from j have jm: "j \<noteq> m" using intm by auto
      show ?thesis
        using j jm I(4)[of j] by (cases "j < length (averages st)") (simp_all add: rs nth_append)
    qed
    have J4: "nat k < length (averages ?st') \<and>
          averages ?st' ! nat k = vector_sum (map (get_row vect) (rows_before index k (Suc n)))"
      if k: "k \<in> insert i seen" for k
      proof (cases "k = i")
        case True
        then show ?thesis using len unseen[OF ns] by (simp add: self m_def[symmetric])
      next
        case False
        then have ks: "k \<in> seen" using k by simp
        have "nat k < length (averages st)" using I(5)[OF ks] .
        then show ?thesis using natneq[OF ks False] I(6)[OF ks] False
          by (simp add: rs nth_append other)
      qed
    have J5: "number ?st' ! nat k = int (length (rows_before index k (Suc n)))"
      if pos: "0 < ncol vect" and k: "k \<in> insert i seen" for k
      proof (cases "k = i")
        case True
        then show ?thesis using A I(1) unseen[OF ns] by (simp add: self m_def[symmetric] rn)
      next
        case False
        then have ks: "k \<in> seen" using k by simp
        have "nat k < length (averages st)" using I(5)[OF ks] .
        then show ?thesis using natneq[OF ks False] I(7)[OF pos ks] False I(1)
          by (simp add: rn nth_append other)
      qed
    have "mnn_inv vect index (Suc n) ?st'"
      unfolding mnn_inv_def seen' using J1 J2 J2' J3 J4 J5 by blast
    then show ?thesis using step by blast
  next
    case B
    let ?st' = "\<lparr>averages = (averages st)[m := ?currow],
                 number = (number st)[m := 1],
                 mnncell = set_insert i (mnncell st)\<rparr>"
    have step: "mnn_average_row vect index n st = Inr ?st'"
      using B i0 by (simp add: mnn_average_row_def Let_def i_def[symmetric] m_def[symmetric])
    have z: "i \<in> seen \<Longrightarrow> ncol vect = 0" using seen_len B by simp
    have J1: "length (number ?st') = length (averages ?st')" using I(1) by simp
    have J2: "sorted_wrt (<) (mnncell ?st')" using I(2) by (simp add: sorted_set_insert)
    have J2': "set (mnncell ?st') = insert i seen" using I(3) by simp
    have J3: "averages ?st' ! j = []" if j: "j < length (averages ?st')" "int j \<notin> insert i seen" for j
    proof -
      from j have jm: "j \<noteq> m" using intm by auto
      show ?thesis using j jm I(4)[of j] by simp
    qed
    have J4: "nat k < length (averages ?st') \<and>
          averages ?st' ! nat k = vector_sum (map (get_row vect) (rows_before index k (Suc n)))"
      if k: "k \<in> insert i seen" for k
      proof (cases "k = i")
        case True
        show ?thesis
        proof (cases "i \<in> seen")
          case True
          have "vector_sum (map (get_row vect) (rows_before index i n @ [n])) =
                add_into (averages st ! m) (get_row vect n)"
            using I(6)[OF True] by (simp only: vector_sum_map_snoc[OF seen_ne[OF True]] m_def)
          then have "vector_sum (map (get_row vect) (rows_before index i n @ [n])) = []"
            using B by (simp add: add_into_def)
          moreover have "?currow = []" using z[OF True] by (simp add: get_row_def)
          ultimately show ?thesis using B \<open>k = i\<close> by (simp add: self m_def[symmetric])
        next
          case False
          then show ?thesis using B unseen \<open>k = i\<close> by (simp add: self m_def[symmetric])
        qed
      next
        case False
        then have ks: "k \<in> seen" using k by simp
        show ?thesis using natneq[OF ks False] I(5)[OF ks] I(6)[OF ks] False
          by (simp add: other)
      qed
    have J5: "number ?st' ! nat k = int (length (rows_before index k (Suc n)))"
      if pos: "0 < ncol vect" and k: "k \<in> insert i seen" for k
      proof (cases "k = i")
        case True
        have ns: "i \<notin> seen" using z pos by auto
        show ?thesis using True B I(1) unseen[OF ns] by (simp add: self m_def[symmetric])
      next
        case False
        then have ks: "k \<in> seen" using k by simp
        show ?thesis using natneq[OF ks False] I(7)[OF pos ks] False
          by (simp add: other)
      qed
    have "mnn_inv vect index (Suc n) ?st'"
      unfolding mnn_inv_def seen' using J1 J2 J2' J3 J4 J5 by blast
    then show ?thesis using step by blast
  next
    case C
    have s: "i \<in> seen" using I(4)[of m] C intm[of m] by auto
    let ?st' = "st\<lparr>averages := (averages st)[m := add_into (averages st ! m) ?currow],
                 number := (number st)[m := number st ! m + 1]\<rparr>"
    have step: "mnn_average_row vect index n st = Inr ?st'"
      using C i0 by (simp add: mnn_average_row_def Let_def i_def[symmetric] m_def[symmetric])
    have J1: "length (number ?st') = length (averages ?st')" using I(1) by simp
    have J2: "sorted_wrt (<) (mnncell ?st')" using I(2) by simp
    have J2': "set (mnncell ?st') = insert i seen" using I(3) s by auto
    have J3: "averages ?st' ! j = []" if j: "j < length (averages ?st')" "int j \<notin> insert i seen" for j
    proof -
      from j have jm: "j \<noteq> m" using intm by auto
      show ?thesis using j jm I(4)[of j] by simp
    qed
    have J4: "nat k < length (averages ?st') \<and>
          averages ?st' ! nat k = vector_sum (map (get_row vect) (rows_before index k (Suc n)))"
      if k: "k \<in> insert i seen" for k
      proof (cases "k = i")
        case True
        have "vector_sum (map (get_row vect) (rows_before index i n @ [n])) =
                add_into (averages st ! m) (get_row vect n)"
          using I(6)[OF s] by (simp only: vector_sum_map_snoc[OF seen_ne[OF s]] m_def)
        then show ?thesis using C True
          by (simp add: self m_def[symmetric])
      next
        case False
        then have ks: "k \<in> seen" using k by simp
        show ?thesis using natneq[OF ks False] I(5)[OF ks] I(6)[OF ks] False
          by (simp add: other)
      qed
    have J5: "number ?st' ! nat k = int (length (rows_before index k (Suc n)))"
      if pos: "0 < ncol vect" and k: "k \<in> insert i seen" for k
      proof (cases "k = i")
        case True
        then show ?thesis using C I(1) I(7)[OF pos s] by (simp add: self m_def[symmetric])
      next
        case False
        then have ks: "k \<in> seen" using k by simp
        show ?thesis using natneq[OF ks False] I(7)[OF pos ks] False
          by (simp add: other)
      qed
    have "mnn_inv vect index (Suc n) ?st'"
      unfolding mnn_inv_def seen' using J1 J2 J2' J3 J4 J5 by blast
    then show ?thesis using step by blast
  qed
qed

lemma mnn_loop_inv:
  assumes "n \<le> length index" and "\<forall>r<n. 0 \<le> index ! r \<and> index ! r < 2147483647"
  shows "\<exists>st. run_loop (mnn_average_row vect index) [0..<n]
             \<lparr>averages = [], number = [], mnncell = []\<rparr> = Inr st
           \<and> mnn_inv vect index n st"
  using assms
proof (induction n)
  case 0
  then show ?case by (simp add: mnn_inv_init)
next
  case (Suc n)
  then obtain st where st: "run_loop (mnn_average_row vect index) [0..<n]
             \<lparr>averages = [], number = [], mnncell = []\<rparr> = Inr st"
      "mnn_inv vect index n st" by auto
  from Suc.prems have "n < length index" "\<forall>r\<le>n. 0 \<le> index ! r" "index ! n < 2147483647"
    by (auto simp: less_Suc_eq_le)
  from mnn_average_row_inv[OF st(2) this] obtain st' where
    "mnn_average_row vect index n st = Inr st'" "mnn_inv vect index (Suc n) st'" by auto
  then show ?case using st(1) by (simp add: run_loop_append)
qed

lemma add_into_map: "add_into (map f xs) (map h xs) = map (\<lambda>g. dadd (f g) (h g)) xs"
  by (induction xs) (simp_all add: add_into_def)

lemma dsum_snoc: "dsum (xs @ [x]) = dadd (dsum xs) x"
  by (simp add: dsum_def)

lemma vector_sum_coordinates:
  "rs \<noteq> [] \<Longrightarrow> vector_sum (map (get_row vect) rs) =
      map (\<lambda>g. dsum (map (\<lambda>r. elem vect r g) rs)) [0..<ncol vect]"
proof (induction rs rule: rev_nonempty_induct)
  case (single r)
  show ?case by (simp add: get_row_def dsum_def)
next
  case (snoc r rs)
  have "vector_sum (map (get_row vect) (rs @ [r])) =
      add_into (vector_sum (map (get_row vect) rs)) (get_row vect r)"
    using snoc.hyps by (rule vector_sum_map_snoc)
  also have "\<dots> = map (\<lambda>g. dadd (dsum (map (\<lambda>r. elem vect r g) rs)) (elem vect r g)) [0..<ncol vect]"
    by (simp only: snoc.IH get_row_def add_into_map)
  finally show ?case by (simp add: dsum_snoc)
qed

lemma rows_sharing_before: "rows_sharing index i = rows_before index i (length index)"
  by (simp add: rows_sharing_def rows_before_def)

lemma mean_rows_arithmetic:
  "i \<in> set index \<Longrightarrow> mean_rows vect index i = arithmetic_mean vect index i"
proof -
  assume "i \<in> set index"
  then have ne: "rows_before index i (length index) \<noteq> []" by (simp add: rows_before_empty_iff)
  show ?thesis
    by (simp add: mean_rows_def arithmetic_mean_def rows_sharing_before
        vector_sum_coordinates[OF ne] divide_by_def)
qed

lemma mnn_averages_char:
  assumes len: "nrow vect = length index" and rng: "\<forall>i\<in>set index. 0 \<le> i \<and> i < 2147483647"
  shows "\<exists>avg. mnn_averages vect index = Inr avg \<and>
           sorted_wrt (<) (mnncell avg) \<and> set (mnncell avg) = set index \<and>
           (\<forall>i\<in>set index. nat i < length (averages avg) \<and>
               averages avg ! nat i = arithmetic_mean vect index i)"
proof -
  have "\<forall>r<length index. 0 \<le> index ! r \<and> index ! r < 2147483647" using rng by simp
  from mnn_loop_inv[OF order_refl this, of vect] obtain st where
    st: "run_loop (mnn_average_row vect index) [0..<length index]
             \<lparr>averages = [], number = [], mnncell = []\<rparr> = Inr st"
    and inv: "mnn_inv vect index (length index) st" by blast
  have res: "mnn_averages vect index = Inr (divide_averages st)"
    using st len by (simp add: mnn_averages_def)
  have I: "sorted_wrt (<) (mnncell st)" "set (mnncell st) = set index"
    "\<And>i. i \<in> set index \<Longrightarrow> nat i < length (averages st)"
    "\<And>i. i \<in> set index \<Longrightarrow> averages st ! nat i = vector_sum (map (get_row vect) (rows_before index i (length index)))"
    "\<And>i. 0 < ncol vect \<Longrightarrow> i \<in> set index \<Longrightarrow> number st ! nat i = int (length (rows_before index i (length index)))"
    using inv by (simp_all add: mnn_inv_def)
  have dl: "number (divide_averages st) = number st \<and> mnncell (divide_averages st) = mnncell st \<and>
        length (averages (divide_averages st)) = length (averages st) \<and>
        (\<forall>j<length (averages st). averages (divide_averages st) ! j =
                 (if int j \<in> set (mnncell st) then divide_by (averages st ! j) (number st ! j) else averages st ! j))"
  proof -
    have h: "\<forall>i\<in>set (mnncell st). 0 \<le> i \<and> nat i < length (averages st)"
      using I rng by auto
    show ?thesis
      using divide_loop[OF sorted_lt_distinct[OF I(1)] h] by (simp add: divide_averages_def Let_def)
  qed
  have "\<forall>i\<in>set index. nat i < length (averages (divide_averages st)) \<and>
      averages (divide_averages st) ! nat i = arithmetic_mean vect index i"
  proof
    fix i assume i: "i \<in> set index"
    then have b: "0 \<le> i" "int (nat i) = i" using rng by auto
    have ne: "rows_before index i (length index) \<noteq> []" using i by (simp add: rows_before_empty_iff)
    have d: "averages (divide_averages st) ! nat i = divide_by (averages st ! nat i) (number st ! nat i)"
      using dl I(3)[OF i] I(2) b i by simp
    have "divide_by (averages st ! nat i) (number st ! nat i) = arithmetic_mean vect index i"
    proof (cases "0 < ncol vect")
      case True
      then show ?thesis using I(4)[OF i] I(5)[OF True i] mean_rows_arithmetic[OF i, of vect]
        by (simp add: mean_rows_def)
    next
      case False
      then have "averages st ! nat i = []"
        using I(4)[OF i] length_vector_sum[OF ne, of vect] by simp
      then show ?thesis using False by (simp add: divide_by_def arithmetic_mean_def)
    qed
    then show "nat i < length (averages (divide_averages st)) \<and>
      averages (divide_averages st) ! nat i = arithmetic_mean vect index i"
      using d dl I(3)[OF i] by simp
  qed
  then show ?thesis using res dl I by simp
qed

lemma sgk_averages_mean:
  assumes len: "nrow vect = length index" and rng: "\<forall>i\<in>set index. 0 \<le> i \<and> i < int ncells"
  shows "\<exists>avg. sgk_averages vect index ncells = Inr avg \<and> length (averages avg) = ncells \<and>
           sorted_wrt (<) (mnncell avg) \<and> set (mnncell avg) = set index \<and>
           (\<forall>i\<in>set index. averages avg ! nat i = arithmetic_mean vect index i \<and>
               number avg ! nat i = int (length (rows_sharing index i)))"
  using sgk_averages_char[OF len rng] by (auto simp: mean_rows_arithmetic rows_sharing_before)

section \<open>The smoothing loops\<close>

lemma length_weights [simp]: "length (weights d density) = length d"
  by (simp add: weights_def)

lemma length_sgk_distances2 [simp]: "length (sgk_distances2 mat s2 mnn) = ncol mat"
  by (simp add: sgk_distances2_def)

lemma length_mnn_distances2 [simp]: "length (mnn_distances2 mat s2 mnn) = ncol mat"
  by (simp add: mnn_distances2_def)

lemma distances2_agree: "mnn_distances2 mat s2 mnn = sgk_distances2 mat s2 mnn"
  by (simp add: mnn_distances2_def sgk_distances2_def)

lemma accumulate_lengths:
  "length (output_columns st) = n \<Longrightarrow> length (totalprob st) = n \<Longrightarrow> length mults = n \<Longrightarrow>
   length (output_columns (accumulate correction mults st)) = n \<and>
   length (totalprob (accumulate correction mults st)) = n"
  by (simp add: accumulate_def)

lemma initial_state_lengths [simp]:
  "length (output_columns (initial_state ngenes ncells)) = ncells"
  "length (totalprob (initial_state ngenes ncells)) = ncells"
  by (simp_all add: initial_state_def)

lemma sgk_loop_lengths:
  "length (output_columns st) = ncol mat \<Longrightarrow> length (totalprob st) = ncol mat \<Longrightarrow>
   length (output_columns (foldl (\<lambda>st mnn. sgk_smooth_cell mat s2 avg mnn st) st ms)) = ncol mat \<and>
   length (totalprob (foldl (\<lambda>st mnn. sgk_smooth_cell mat s2 avg mnn st) st ms)) = ncol mat"
proof (induction ms arbitrary: st)
  case Nil
  then show ?case by simp
next
  case (Cons m ms)
  have "length (output_columns (sgk_smooth_cell mat s2 avg m st)) = ncol mat \<and>
        length (totalprob (sgk_smooth_cell mat s2 avg m st)) = ncol mat"
    unfolding sgk_smooth_cell_def Let_def
    by (rule accumulate_lengths) (simp_all add: Cons.prems)
  then show ?case using Cons.IH by simp
qed

lemma sgk_accumulated_lengths:
  "length (output_columns (sgk_accumulated mat s2 avg ngenes (ncol mat))) = ncol mat \<and>
   length (totalprob (sgk_accumulated mat s2 avg ngenes (ncol mat))) = ncol mat"
  unfolding sgk_accumulated_def by (rule sgk_loop_lengths) simp_all

lemma mnn_density_ok:
  "\<forall>other\<in>set ms. 0 \<le> other \<and> other < int (length d) \<Longrightarrow> \<exists>x. mnn_density d ms density = Inr x"
  by (induction ms arbitrary: density) (auto simp: Let_def)

lemma mnn_smooth_cell_ok:
  assumes "0 \<le> mnn" "mnn < int (ncol mat)"
    and "\<forall>other\<in>set (mnncell avg). 0 \<le> other \<and> other < int (ncol mat)"
    and "length (output_columns st) = ncol mat" "length (totalprob st) = ncol mat"
  shows "\<exists>st'. mnn_smooth_cell mat s2 avg mnn st = Inr st' \<and>
           length (output_columns st') = ncol mat \<and> length (totalprob st') = ncol mat"
proof -
  from mnn_density_ok[of "mnncell avg" "mnn_distances2 mat s2 (nat mnn)" NA] assms(3)
  obtain x where x: "mnn_density (mnn_distances2 mat s2 (nat mnn)) (mnncell avg) NA = Inr x"
    by auto
  have "length (output_columns (accumulate (averages avg ! nat mnn) (weights (mnn_distances2 mat s2 (nat mnn)) x) st)) = ncol mat \<and>
        length (totalprob (accumulate (averages avg ! nat mnn) (weights (mnn_distances2 mat s2 (nat mnn)) x) st)) = ncol mat"
    by (rule accumulate_lengths) (simp_all add: assms)
  then show ?thesis using assms(1,2) x by (simp add: mnn_smooth_cell_def Let_def)
qed

lemma mnn_loop_ok:
  assumes "\<forall>other\<in>set (mnncell avg). 0 \<le> other \<and> other < int (ncol mat)"
    and "set ms \<subseteq> set (mnncell avg)"
    and "length (output_columns st) = ncol mat" "length (totalprob st) = ncol mat"
  shows "\<exists>st'. run_loop (mnn_smooth_cell mat s2 avg) ms st = Inr st' \<and>
           length (output_columns st') = ncol mat \<and> length (totalprob st') = ncol mat"
  using assms(2-)
proof (induction ms arbitrary: st)
  case Nil
  then show ?case by simp
next
  case (Cons m ms)
  have m: "0 \<le> m" "m < int (ncol mat)" using Cons.prems(1) assms(1) by auto
  from mnn_smooth_cell_ok[OF m assms(1) Cons.prems(2,3)] obtain st1 where
    st1: "mnn_smooth_cell mat s2 avg m st = Inr st1"
      "length (output_columns st1) = ncol mat" "length (totalprob st1) = ncol mat" by blast
  have "set ms \<subseteq> set (mnncell avg)" using Cons.prems(1) by simp
  from Cons.IH[OF this st1(2,3)] show ?case using st1(1) by simp
qed

lemma mnn_accumulated_ok:
  assumes "\<forall>other\<in>set (mnncell avg). 0 \<le> other \<and> other < int (ncol mat)"
  shows "\<exists>st. mnn_accumulated mat s2 avg ngenes (ncol mat) = Inr st \<and>
           length (output_columns st) = ncol mat \<and> length (totalprob st) = ncol mat"
  unfolding mnn_accumulated_def by (rule mnn_loop_ok[OF assms]) simp_all

lemma ddiv_zero_not_finite: "\<not> is_finite (ddiv x (Fin 0))"
  by (cases x) simp_all

lemma zero_total_not_finite:
  assumes "s < length (output_columns st)" "s < length (totalprob st)" "totalprob st ! s = Fin 0"
  shows "\<forall>val\<in>set (divide_by_totalprob st ! s). \<not> is_finite val"
  using assms by (auto simp: divide_by_totalprob_def ddiv_zero_not_finite)

section \<open>Index entries and container bounds\<close>

lemma run_loop_fails:
  assumes "x \<in> set xs"
    and "\<And>st. \<exists>e\<in>E. body x st = Inl e"
    and "\<And>y st e. y \<in> set xs \<Longrightarrow> body y st = Inl e \<Longrightarrow> e \<in> E"
  shows "\<exists>e\<in>E. run_loop body xs st = Inl e"
  using assms(1,3)
proof (induction xs arbitrary: st)
  case Nil
  then show ?case by simp
next
  case (Cons y ys)
  show ?case
  proof (cases "body y st")
    case (Inl e)
    then have "e \<in> E" using Cons.prems(2)[of y st e] by simp
    then show ?thesis using Inl by simp
  next
    case (Inr st')
    then have "y \<noteq> x" using assms(2)[of st] by auto
    then have "x \<in> set ys" using Cons.prems(1) by simp
    have "\<exists>e\<in>E. run_loop body ys st' = Inl e"
    proof (rule Cons.IH[OF \<open>x \<in> set ys\<close>])
      show "e \<in> E" if "y' \<in> set ys" "body y' st = Inl e" for y' st e
        using Cons.prems(2)[of y' st e] that by simp
    qed
    then show ?thesis using Inr by simp
  qed
qed

lemma sgk_average_row_error:
  "sgk_average_row vect index ncells r st = Inl e \<Longrightarrow> e = OutOfBounds"
  by (auto simp: sgk_average_row_def Let_def split: if_splits)

lemma sgk_averages_out_of_bounds:
  assumes len: "nrow vect = length index" and bad: "\<not> (\<forall>i\<in>set index. 0 \<le> i \<and> i < int ncells)"
  shows "sgk_averages vect index ncells = Inl OutOfBounds"
proof -
  from bad obtain r where r: "r < length index" "\<not> (0 \<le> index ! r \<and> index ! r < int ncells)"
    by (auto simp: in_set_conv_nth)
  have "\<exists>e\<in>{OutOfBounds}. run_loop (sgk_average_row vect index ncells) [0..<nrow vect]
      \<lparr>averages = replicate ncells [], number = replicate ncells 0, mnncell = []\<rparr> = Inl e"
  proof (rule run_loop_fails[where x = r])
    show "r \<in> set [0..<nrow vect]" using r len by simp
    show "\<exists>e\<in>{OutOfBounds}. sgk_average_row vect index ncells r st = Inl e" for st
      using r(2) by (auto simp: sgk_average_row_def Let_def)
    show "e \<in> {OutOfBounds}" if "sgk_average_row vect index ncells y st = Inl e" for y st e
      using sgk_average_row_error[OF that] by simp
  qed
  then show ?thesis by (simp add: sgk_averages_def)
qed

lemma mnn_average_row_error:
  "mnn_average_row vect index r st = Inl e \<Longrightarrow> e \<in> {OutOfBounds, LengthError}"
  by (auto simp: mnn_average_row_def Let_def split: if_splits)

lemma mnn_averages_fail:
  assumes len: "nrow vect = length index" and bad: "\<not> (\<forall>i\<in>set index. 0 \<le> i \<and> i < 2147483647)"
  shows "\<exists>e\<in>{OutOfBounds, LengthError}. mnn_averages vect index = Inl e"
proof -
  from bad obtain r where r: "r < length index" "index ! r < 0 \<or> 2147483647 \<le> index ! r"
    by (auto simp: in_set_conv_nth not_le not_less)
  have "\<exists>e\<in>{OutOfBounds, LengthError}. run_loop (mnn_average_row vect index) [0..<nrow vect]
      \<lparr>averages = [], number = [], mnncell = []\<rparr> = Inl e"
  proof (rule run_loop_fails[where x = r])
    show "r \<in> set [0..<nrow vect]" using r len by simp
    show "\<exists>e\<in>{OutOfBounds, LengthError}. mnn_average_row vect index r st = Inl e" for st
      using r(2) by (auto simp: mnn_average_row_def Let_def)
    show "e \<in> {OutOfBounds, LengthError}" if "mnn_average_row vect index y st = Inl e" for y st e
      using mnn_average_row_error[OF that] .
  qed
  then show ?thesis by (auto simp: mnn_averages_def)
qed

lemma mnn_density_out_of_bounds:
  "\<exists>other\<in>set ms. \<not> (0 \<le> other \<and> other < int (length d)) \<Longrightarrow>
     mnn_density d ms density = Inl OutOfBounds"
proof (induction ms arbitrary: density)
  case Nil
  then show ?case by simp
next
  case (Cons m ms)
  show ?case
  proof (cases "0 \<le> m \<and> m < int (length d)")
    case True
    then have "\<exists>other\<in>set ms. \<not> (0 \<le> other \<and> other < int (length d))"
      using Cons.prems by auto
    from Cons.IH[OF this] show ?thesis using True by (simp add: Let_def)
  next
    case False
    then show ?thesis by auto
  qed
qed

lemma mnn_smooth_cell_out_of_bounds:
  assumes "\<exists>other\<in>set (mnncell avg). \<not> (0 \<le> other \<and> other < int (ncol mat))"
  shows "mnn_smooth_cell mat s2 avg mnn st = Inl OutOfBounds"
proof (cases "mnn < 0 \<or> int (ncol mat) \<le> mnn")
  case True
  then show ?thesis by (simp add: mnn_smooth_cell_def)
next
  case False
  have "mnn_density (mnn_distances2 mat s2 (nat mnn)) (mnncell avg) NA = Inl OutOfBounds"
    by (rule mnn_density_out_of_bounds) (use assms in simp)
  then show ?thesis using False by (simp add: mnn_smooth_cell_def Let_def)
qed

lemma mnn_accumulated_out_of_bounds:
  assumes "\<exists>other\<in>set (mnncell avg). \<not> (0 \<le> other \<and> other < int (ncol mat))"
  shows "mnn_accumulated mat s2 avg ngenes ncells = Inl OutOfBounds"
proof -
  from assms obtain m ms where "mnncell avg = m # ms" by (cases "mnncell avg") auto
  then show ?thesis
    using mnn_smooth_cell_out_of_bounds[OF assms, of s2 m]
    by (simp add: mnn_accumulated_def)
qed

lemma smooth_in_bounds:
  assumes len: "nrow vect = length index" and chk: "chk sigma ''sigma'' = Inr s2"
    and rng: "\<forall>i\<in>set index. 0 \<le> i \<and> i < int (ncol data)"
  shows "(\<exists>out. smooth_gaussian_kernel chk vect index data sigma = Inr out) \<and>
         (\<exists>out. smooth_gaussian_kernel_mnn chk vect index data sigma = Inr out)"
proof
  from sgk_averages_mean[OF len rng] obtain avg where
    "sgk_averages vect index (ncol data) = Inr avg" by blast
  then show "\<exists>out. smooth_gaussian_kernel chk vect index data sigma = Inr out"
    using len chk by (simp add: smooth_gaussian_kernel_def)
next
  have "\<forall>i\<in>set index. 0 \<le> i \<and> i < 2147483647" using rng below_ncol_small by blast
  from mnn_averages_char[OF len this] obtain avg where
    avg: "mnn_averages vect index = Inr avg" "set (mnncell avg) = set index" by blast
  then have "\<forall>other\<in>set (mnncell avg). 0 \<le> other \<and> other < int (ncol data)"
    using rng by simp
  from mnn_accumulated_ok[OF this, of s2 "ncol vect"] obtain st where
    "mnn_accumulated data s2 avg (ncol vect) (ncol data) = Inr st" by blast
  then show "\<exists>out. smooth_gaussian_kernel_mnn chk vect index data sigma = Inr out"
    using len chk avg(1) by (simp add: smooth_gaussian_kernel_mnn_def)
qed

lemma smooth_out_of_bounds:
  assumes len: "nrow vect = length index" and chk: "chk sigma ''sigma'' = Inr s2"
    and bad: "\<not> (\<forall>i\<in>set index. 0 \<le> i \<and> i < int (ncol data))"
  shows "smooth_gaussian_kernel chk vect index data sigma = Inl OutOfBounds \<and>
         (smooth_gaussian_kernel_mnn chk vect index data sigma = Inl OutOfBounds \<or>
          smooth_gaussian_kernel_mnn chk vect index data sigma = Inl LengthError)"
proof
  show "smooth_gaussian_kernel chk vect index data sigma = Inl OutOfBounds"
    using sgk_averages_out_of_bounds[OF len bad] len chk by (simp add: smooth_gaussian_kernel_def)
next
  show "smooth_gaussian_kernel_mnn chk vect index data sigma = Inl OutOfBounds \<or>
          smooth_gaussian_kernel_mnn chk vect index data sigma = Inl LengthError"
  proof (cases "\<forall>i\<in>set index. 0 \<le> i \<and> i < 2147483647")
    case False
    from mnn_averages_fail[OF len False] show ?thesis
      using len by (auto simp: smooth_gaussian_kernel_mnn_def)
  next
    case True
    from mnn_averages_char[OF len True] obtain avg where
      avg: "mnn_averages vect index = Inr avg" "set (mnncell avg) = set index" by blast
    have "\<exists>other\<in>set (mnncell avg). \<not> (0 \<le> other \<and> other < int (ncol data))"
      using bad avg(2) by simp
    from mnn_accumulated_out_of_bounds[OF this, of s2 "ncol vect" "ncol data"] show ?thesis
      using len chk avg(1) by (simp add: smooth_gaussian_kernel_mnn_def)
  qed
qed

section \<open>A single MNN cell\<close>

lemma zip_replicate_left: "length ys = n \<Longrightarrow> zip (replicate n x) ys = map (Pair x) ys"
  by (induction ys arbitrary: n) auto

lemma zip_map_same: "zip (map f xs) xs = map (\<lambda>x. (f x, x)) xs"
  by (induction xs) auto

lemma zip_map_map_same: "zip (map f xs) (map g xs) = map (\<lambda>x. (f x, g x)) xs"
  by (induction xs) auto

lemma accumulate_initial:
  assumes "length correction = ngenes" "length mults = ncells"
  shows "accumulate correction mults (initial_state ngenes ncells) =
     \<lparr>output_columns = map (\<lambda>mult. map (\<lambda>corval. dadd (Fin 0) (dmul corval mult)) correction) mults,
      totalprob = map (\<lambda>mult. dadd (Fin 0) mult) mults\<rparr>"
  using assms
  by (simp add: accumulate_def initial_state_def zip_replicate_left comp_def del: dadd_zero_left)

lemma single_anchor_columns:
  assumes "length correction = ngenes" "length mults = ncells"
  shows "divide_by_totalprob (accumulate correction mults (initial_state ngenes ncells)) =
           map (weighted_and_divided correction) mults"
  unfolding accumulate_initial[OF assms]
  by (simp add: divide_by_totalprob_def zip_map_map_same comp_def weighted_and_divided_def
      del: dadd_zero_left)

lemma is_finite_iff: "is_finite x \<longleftrightarrow> (\<exists>a. x = Fin a)"
  by (cases x) simp_all

lemma length_arithmetic_mean [simp]: "length (arithmetic_mean vect index i) = ncol vect"
  by (simp add: arithmetic_mean_def)

lemma strictly_sorted_unique:
  "sorted_wrt (<) (xs :: int list) \<Longrightarrow> sorted_wrt (<) ys \<Longrightarrow> set xs = set ys \<Longrightarrow> xs = ys"
  by (simp add: strict_sorted_iff sorted_distinct_set_unique)

lemma single_anchor_mnncell:
  "sorted_wrt (<) (ms :: int list) \<Longrightarrow> set ms = {a} \<Longrightarrow> ms = [a]"
  by (rule strictly_sorted_unique) simp_all

lemma single_anchor_weights:
  "weights (sgk_distances2 mat s2 a) (sgk_distances2 mat s2 a ! a) =
     map (single_anchor_weight mat s2 a) [0..<ncol mat]"
proof (rule nth_equalityI)
  show "length (weights (sgk_distances2 mat s2 a) (sgk_distances2 mat s2 a ! a)) =
      length (map (single_anchor_weight mat s2 a) [0..<ncol mat])"
    by simp
next
  fix s assume "s < length (weights (sgk_distances2 mat s2 a) (sgk_distances2 mat s2 a ! a))"
  then have "s < ncol mat" by simp
  then show "weights (sgk_distances2 mat s2 a) (sgk_distances2 mat s2 a ! a) ! s =
      map (single_anchor_weight mat s2 a) [0..<ncol mat] ! s"
    by (simp add: weights_def single_anchor_weight_def)
qed

lemma single_anchor_result:
  "divide_by_totalprob (accumulate (arithmetic_mean vect index a)
       (weights (sgk_distances2 data s2 n) (sgk_distances2 data s2 n ! n))
       (initial_state (ncol vect) (ncol data))) =
     map (\<lambda>s. weighted_and_divided (arithmetic_mean vect index a) (single_anchor_weight data s2 n s))
       [0..<ncol data]"
proof -
  have "divide_by_totalprob (accumulate (arithmetic_mean vect index a)
       (weights (sgk_distances2 data s2 n) (sgk_distances2 data s2 n ! n))
       (initial_state (ncol vect) (ncol data))) =
     map (weighted_and_divided (arithmetic_mean vect index a))
       (weights (sgk_distances2 data s2 n) (sgk_distances2 data s2 n ! n))"
    by (rule single_anchor_columns) simp_all
  then show ?thesis by (simp add: single_anchor_weights comp_def)
qed

lemma single_anchor_sgk:
  assumes len: "nrow vect = length index" and single: "set index = {a}"
    and rng: "0 \<le> a" "a < int (ncol data)"
    and chk: "chk sigma ''sigma'' = Inr s2"
  shows "smooth_gaussian_kernel chk vect index data sigma =
           Inr (map (\<lambda>s. weighted_and_divided (arithmetic_mean vect index a)
                           (single_anchor_weight data s2 (nat a) s)) [0..<ncol data])"
proof -
  have r: "\<forall>i\<in>set index. 0 \<le> i \<and> i < int (ncol data)" using single rng by simp
  from sgk_averages_mean[OF len r] obtain avg where
    avg: "sgk_averages vect index (ncol data) = Inr avg" "sorted_wrt (<) (mnncell avg)"
      "set (mnncell avg) = set index" "averages avg ! nat a = arithmetic_mean vect index a"
    using single by auto
  have ms: "mnncell avg = [a]" using avg(2,3) single by (simp add: single_anchor_mnncell)
  have "divide_by_totalprob (sgk_accumulated data s2 avg (ncol vect) (ncol data)) =
      map (\<lambda>s. weighted_and_divided (arithmetic_mean vect index a)
                  (single_anchor_weight data s2 (nat a) s)) [0..<ncol data]"
    by (simp add: sgk_accumulated_def ms sgk_smooth_cell_def Let_def avg(4) single_anchor_result)
  then show ?thesis using len chk avg(1) by (simp add: smooth_gaussian_kernel_def)
qed

lemma single_anchor_mnn:
  assumes len: "nrow vect = length index" and single: "set index = {a}"
    and rng: "0 \<le> a" "a < int (ncol data)"
    and chk: "chk sigma ''sigma'' = Inr s2"
  shows "smooth_gaussian_kernel_mnn chk vect index data sigma =
           Inr (map (\<lambda>s. weighted_and_divided (arithmetic_mean vect index a)
                           (single_anchor_weight data s2 (nat a) s)) [0..<ncol data])"
proof -
  have r: "\<forall>i\<in>set index. 0 \<le> i \<and> i < 2147483647"
    using single rng below_ncol_small[of a data] by simp
  from mnn_averages_char[OF len r] obtain avg where
    avg: "mnn_averages vect index = Inr avg" "sorted_wrt (<) (mnncell avg)"
      "set (mnncell avg) = set index" "averages avg ! nat a = arithmetic_mean vect index a"
    using single by auto
  have ms: "mnncell avg = [a]" using avg(2,3) single by (simp add: single_anchor_mnncell)
  let ?d = "sgk_distances2 data s2 (nat a)"
  have "mnn_accumulated data s2 avg (ncol vect) (ncol data) =
      Inr (accumulate (arithmetic_mean vect index a) (weights ?d (?d ! nat a))
             (initial_state (ncol vect) (ncol data)))"
    using rng by (simp add: mnn_accumulated_def ms mnn_smooth_cell_def Let_def avg(4) distances2_agree)
  then show ?thesis
    using len chk avg(1) by (simp add: smooth_gaussian_kernel_mnn_def single_anchor_result)
qed

lemma sq_dist_self_aux:
  "\<forall>x\<in>set xs. is_finite x \<Longrightarrow>
     foldl (\<lambda>curdist2 (a, b). let tmp = dsub a b in dadd curdist2 (dmul tmp tmp)) (Fin 0) (zip xs xs) = Fin 0"
  by (induction xs) (auto simp: is_finite_iff dsub_def)

lemma sq_dist_self: "\<forall>x\<in>set xs. is_finite x \<Longrightarrow> sq_dist xs xs = Fin 0"
  unfolding sq_dist_def by (rule sq_dist_self_aux)

lemma single_anchor_own_weight:
  assumes "\<forall>r<nrow mat. is_finite (elem mat r a)" "is_finite s2" "s2 \<noteq> Fin 0" "a < ncol mat"
  shows "single_anchor_weight mat s2 a a = Fin 1"
proof -
  have "sq_dist (get_const_col mat a) (get_const_col mat a) = Fin 0"
    by (rule sq_dist_self) (use assms(1) in \<open>auto simp: get_const_col_def\<close>)
  moreover obtain v where "s2 = Fin v" "v \<noteq> 0" using assms(2,3) by (cases s2) auto
  ultimately have "sgk_distances2 mat s2 a ! a = Fin 0"
    using assms(4) by (simp add: sgk_distances2_def)
  then show ?thesis by (simp add: single_anchor_weight_def dsub_def)
qed

lemma weighted_and_divided_one: "weighted_and_divided correction (Fin 1) = correction"
proof -
  have "ddiv (dadd (Fin 0) (dmul corval (Fin 1))) (dadd (Fin 0) (Fin 1)) = corval" for corval
    by (cases corval) simp_all
  then show ?thesis by (simp add: weighted_and_divided_def del: dadd_zero_left)
qed

section \<open>The two implementations of the smoothing\<close>

lemma logspace_add_as_in_mnn:
  assumes "a \<noteq> NA" "b \<noteq> NA"
  shows "dadd (dmax b a) (log1pexp (dneg (dabs (dsub b a)))) = logspace_add a b"
    and "logspace_add a b \<noteq> NA"
  using assms
  by (cases a; cases b; simp add: logspace_add_def fmax2_def dmax_def log1pexp_def dsub_def abs_minus_commute)+

lemma not_NA_arith:
  "x \<noteq> NA \<Longrightarrow> y \<noteq> NA \<Longrightarrow> dadd x y \<noteq> NA"
  "x \<noteq> NA \<Longrightarrow> y \<noteq> NA \<Longrightarrow> dmul x y \<noteq> NA"
  "x \<noteq> NA \<Longrightarrow> y \<noteq> NA \<Longrightarrow> ddiv x y \<noteq> NA"
  "x \<noteq> NA \<Longrightarrow> dneg x \<noteq> NA"
  by (cases x; cases y; simp)+

lemma not_NA_dsub: "x \<noteq> NA \<Longrightarrow> y \<noteq> NA \<Longrightarrow> dsub x y \<noteq> NA"
  by (simp add: dsub_def not_NA_arith)

lemma sq_dist_not_NA_aux:
  "\<forall>p\<in>set ps. fst p \<noteq> NA \<and> snd p \<noteq> NA \<Longrightarrow> acc \<noteq> NA \<Longrightarrow>
     foldl (\<lambda>curdist2 (a, b). let tmp = dsub a b in dadd curdist2 (dmul tmp tmp)) acc ps \<noteq> NA"
proof (induction ps arbitrary: acc)
  case Nil
  then show ?case by simp
next
  case (Cons p ps)
  obtain a b where p: "p = (a, b)" by (cases p)
  have "dadd acc (dmul (dsub a b) (dsub a b)) \<noteq> NA"
    using Cons.prems p by (simp add: not_NA_arith not_NA_dsub)
  then show ?case using Cons by (simp add: p Let_def)
qed

lemma sq_dist_not_NA:
  "\<forall>x\<in>set xs. x \<noteq> NA \<Longrightarrow> \<forall>y\<in>set ys. y \<noteq> NA \<Longrightarrow> sq_dist xs ys \<noteq> NA"
  unfolding sq_dist_def
  by (rule sq_dist_not_NA_aux) (auto dest: set_zip_leftD set_zip_rightD)

lemma distances2_not_NA:
  assumes "\<forall>r<nrow mat. elem mat r mnn \<noteq> NA" "\<forall>r<nrow mat. elem mat r other \<noteq> NA"
    and "s2 \<noteq> NA" "other < ncol mat"
  shows "sgk_distances2 mat s2 mnn ! other \<noteq> NA"
proof -
  have "sq_dist (get_const_col mat mnn) (get_const_col mat other) \<noteq> NA"
    by (rule sq_dist_not_NA) (use assms in \<open>auto simp: get_const_col_def\<close>)
  then show ?thesis using assms(3,4) by (simp add: sgk_distances2_def not_NA_arith)
qed

lemma mnn_density_continues:
  assumes "\<forall>other\<in>set ms. 0 \<le> other \<and> other < int (length d) \<and> d ! nat other \<noteq> NA"
    and "density \<noteq> NA"
  shows "mnn_density d ms density = Inr (sgk_density d ms density False)"
  using assms
proof (induction ms arbitrary: density)
  case Nil
  then show ?case by simp
next
  case (Cons m ms)
  have m: "0 \<le> m" "m < int (length d)" "d ! nat m \<noteq> NA" using Cons.prems(1) by auto
  have n: "density \<noteq> NA" by (rule Cons.prems(2))
  have i: "\<not> ISNA density" using n by (cases density) auto
  have "mnn_density d ms (logspace_add density (d ! nat m)) =
      Inr (sgk_density d ms (logspace_add density (d ! nat m)) False)"
    by (rule Cons.IH) (use Cons.prems(1) logspace_add_as_in_mnn(2)[OF n m(3)] in auto)
  then show ?case using m i by (simp add: Let_def logspace_add_as_in_mnn(1)[OF n m(3)])
qed

lemma mnn_density_starts:
  assumes "\<forall>other\<in>set ms. 0 \<le> other \<and> other < int (length d) \<and> d ! nat other \<noteq> NA"
    and "ms \<noteq> []"
  shows "mnn_density d ms NA = Inr (sgk_density d ms (Fin 0) True)"
proof -
  from assms(2) obtain m rest where ms: "ms = m # rest" by (cases ms) auto
  have m: "0 \<le> m" "m < int (length d)" "d ! nat m \<noteq> NA" using assms(1) ms by auto
  have "mnn_density d rest (d ! nat m) = Inr (sgk_density d rest (d ! nat m) False)"
    by (rule mnn_density_continues) (use assms(1) ms m in auto)
  then show ?thesis using m by (simp add: ms)
qed

lemma run_loop_total:
  "(\<And>m st. m \<in> set ms \<Longrightarrow> body m st = Inr (f st m)) \<Longrightarrow> run_loop body ms st = Inr (foldl f st ms)"
  by (induction ms arbitrary: st) simp_all

lemma mnn_smooth_cell_agrees:
  assumes na: "\<forall>other\<in>set (mnncell avg). \<forall>r<nrow mat. elem mat r (nat other) \<noteq> NA"
    and s2: "s2 \<noteq> NA"
    and rng: "\<forall>other\<in>set (mnncell avg). 0 \<le> other \<and> other < int (ncol mat)"
    and cells: "mnncell avg' = mnncell avg"
    and avgs: "\<forall>other\<in>set (mnncell avg). averages avg' ! nat other = averages avg ! nat other"
    and mnn: "mnn \<in> set (mnncell avg)"
  shows "mnn_smooth_cell mat s2 avg' mnn st = Inr (sgk_smooth_cell mat s2 avg mnn st)"
proof -
  let ?d = "sgk_distances2 mat s2 (nat mnn)"
  have m: "0 \<le> mnn" "mnn < int (ncol mat)" "nat mnn < ncol mat" using rng mnn by auto
  have "\<forall>other\<in>set (mnncell avg). 0 \<le> other \<and> other < int (length ?d) \<and> ?d ! nat other \<noteq> NA"
  proof
    fix other assume o: "other \<in> set (mnncell avg)"
    then have "nat other < ncol mat" using rng by auto
    from distances2_not_NA[OF _ _ s2 this, of "nat mnn"] na mnn o show
      "0 \<le> other \<and> other < int (length ?d) \<and> ?d ! nat other \<noteq> NA"
      using rng o by simp
  qed
  moreover have "mnncell avg \<noteq> []" using mnn by auto
  ultimately have "mnn_density ?d (mnncell avg) NA = Inr (sgk_density ?d (mnncell avg) (Fin 0) True)"
    by (rule mnn_density_starts)
  then show ?thesis
    using m avgs mnn by (simp add: mnn_smooth_cell_def sgk_smooth_cell_def distances2_agree cells Let_def)
qed

lemma implementations_agree:
  assumes sgk: "smooth_gaussian_kernel chk vect index data sigma = Inr out1"
    and mnn: "smooth_gaussian_kernel_mnn chk vect index data sigma = Inr out2"
    and na: "\<forall>i\<in>set index. \<forall>r<nrow data. elem data r (nat i) \<noteq> NA"
    and sna: "index = [] \<or> chk sigma ''sigma'' \<noteq> Inr NA"
  shows "out1 = out2"
proof -
  have len: "nrow vect = length index"
    using sgk by (auto simp: smooth_gaussian_kernel_def Let_def split: if_splits)
  obtain s2 where s2: "chk sigma ''sigma'' = Inr s2"
    using sgk len by (auto simp: smooth_gaussian_kernel_def Let_def split: sum.splits)
  have s2na: "index = [] \<or> s2 \<noteq> NA" using sna s2 by auto
  have rng: "\<forall>i\<in>set index. 0 \<le> i \<and> i < int (ncol data)"
  proof (rule ccontr)
    assume "\<not> ?thesis"
    from smooth_out_of_bounds[where chk=chk and sigma=sigma, OF len s2 this]
    show False using sgk by simp
  qed
  from sgk_averages_mean[OF len rng] obtain avg where
    avg: "sgk_averages vect index (ncol data) = Inr avg" "sorted_wrt (<) (mnncell avg)"
      "set (mnncell avg) = set index"
      "\<forall>i\<in>set index. averages avg ! nat i = arithmetic_mean vect index i"
    by blast
  have "\<forall>i\<in>set index. 0 \<le> i \<and> i < 2147483647" using rng below_ncol_small by blast
  from mnn_averages_char[OF len this] obtain avg' where
    avg': "mnn_averages vect index = Inr avg'" "sorted_wrt (<) (mnncell avg')"
      "set (mnncell avg') = set index"
      "\<forall>i\<in>set index. averages avg' ! nat i = arithmetic_mean vect index i"
    by blast
  have cells: "mnncell avg' = mnncell avg"
    using avg(2,3) avg'(2,3) by (simp add: strictly_sorted_unique)
  have r: "\<forall>other\<in>set (mnncell avg). 0 \<le> other \<and> other < int (ncol data)"
    using rng avg(3) by simp
  have n: "\<forall>other\<in>set (mnncell avg). \<forall>r<nrow data. elem data r (nat other) \<noteq> NA"
    using na avg(3) by simp
  have a: "\<forall>other\<in>set (mnncell avg). averages avg' ! nat other = averages avg ! nat other"
    using avg(3,4) avg'(4) by simp
  have "mnn_accumulated data s2 avg' (ncol vect) (ncol data) =
      Inr (sgk_accumulated data s2 avg (ncol vect) (ncol data))"
    unfolding mnn_accumulated_def sgk_accumulated_def cells
  proof (rule run_loop_total)
    fix m st assume m: "m \<in> set (mnncell avg)"
    then have "s2 \<noteq> NA" using s2na avg(3) by auto
    from mnn_smooth_cell_agrees[OF n this r cells a m]
    show "mnn_smooth_cell data s2 avg' m st = Inr (sgk_smooth_cell data s2 avg m st)" .
  qed
  then have "smooth_gaussian_kernel_mnn chk vect index data sigma =
      smooth_gaussian_kernel chk vect index data sigma"
    using len s2 avg(1) avg'(1)
    by (simp add: smooth_gaussian_kernel_mnn_def smooth_gaussian_kernel_def)
  then show ?thesis using sgk mnn by simp
qed

section \<open>Values that are not numbers\<close>

lemma is_nan_arith:
  "is_nan x \<Longrightarrow> is_nan (dadd x y)"
  "is_nan y \<Longrightarrow> is_nan (dadd x y)"
  "is_nan x \<Longrightarrow> is_nan (dmul x y)"
  "is_nan y \<Longrightarrow> is_nan (dmul x y)"
  "is_nan x \<Longrightarrow> is_nan (ddiv x y)"
  "is_nan y \<Longrightarrow> is_nan (ddiv x y)"
  "is_nan x \<Longrightarrow> is_nan (dneg x)"
  "is_nan x \<Longrightarrow> is_nan (dexp x)"
  by (cases x; cases y; simp)+

lemma is_nan_dsub: "is_nan x \<Longrightarrow> is_nan (dsub x y)"
  by (simp add: dsub_def is_nan_arith)

lemma sq_dist_nan_aux:
  "is_nan acc \<or> (\<exists>p\<in>set ps. is_nan (fst p)) \<Longrightarrow>
     is_nan (foldl (\<lambda>curdist2 (a, b). let tmp = dsub a b in dadd curdist2 (dmul tmp tmp)) acc ps)"
proof (induction ps arbitrary: acc)
  case Nil
  then show ?case by simp
next
  case (Cons p ps)
  obtain a b where p: "p = (a, b)" by (cases p)
  have "is_nan (dadd acc (dmul (dsub a b) (dsub a b))) \<or> (\<exists>p\<in>set ps. is_nan (fst p))"
    using Cons.prems p by (auto simp: is_nan_arith is_nan_dsub)
  from Cons.IH[OF this] show ?case by (simp add: p Let_def)
qed

lemma sq_dist_nan:
  assumes "r < length xs" "r < length ys" "is_nan (xs ! r)"
  shows "is_nan (sq_dist xs ys)"
proof -
  have "(xs ! r, ys ! r) \<in> set (zip xs ys)"
    using assms(1,2) by (auto simp: set_zip)
  then have "\<exists>p\<in>set (zip xs ys). is_nan (fst p)" using assms(3) by force
  then show ?thesis unfolding sq_dist_def by (intro sq_dist_nan_aux) simp
qed

lemma distances2_nan:
  assumes "s2 = NA \<or> (\<exists>r<nrow mat. elem mat r a = NA)" and "s < ncol mat"
  shows "is_nan (sgk_distances2 mat s2 a ! s)"
proof -
  have "is_nan (ddiv (sq_dist (get_const_col mat a) (get_const_col mat s)) (dneg s2))"
  proof (cases "s2 = NA")
    case True
    then show ?thesis by (simp add: is_nan_arith)
  next
    case False
    then obtain r where r: "r < nrow mat" "elem mat r a = NA" using assms(1) by blast
    have "is_nan (sq_dist (get_const_col mat a) (get_const_col mat s))"
      by (rule sq_dist_nan[of r]) (use r in \<open>simp_all add: get_const_col_def\<close>)
    then show ?thesis by (rule is_nan_arith)
  qed
  then show ?thesis using assms(2) by (simp add: sgk_distances2_def)
qed

lemma weights_nan:
  "\<forall>s<length d. is_nan (d ! s) \<Longrightarrow> \<forall>mult\<in>set (weights d density). is_nan mult"
  by (auto simp: weights_def in_set_conv_nth is_nan_arith is_nan_dsub)

lemma accumulate_has_shape:
  assumes "has_shape ngenes ncells st" "length correction = ngenes" "length mults = ncells"
  shows "has_shape ngenes ncells (accumulate correction mults st)"
  using assms by (auto simp: has_shape_def accumulate_def dest!: set_zip_leftD)

lemma accumulate_no_numbers_kept:
  assumes "no_numbers st"
  shows "no_numbers (accumulate correction mults st)"
  using assms unfolding no_numbers_def accumulate_def
  by (auto dest!: set_zip_leftD simp: is_nan_arith)

lemma accumulate_no_numbers:
  assumes "\<forall>mult\<in>set mults. is_nan mult"
  shows "no_numbers (accumulate correction mults st)"
  using assms unfolding no_numbers_def accumulate_def
  by (auto dest!: set_zip_rightD simp: is_nan_arith)

lemma accumulate_weights_nan:
  assumes "\<forall>s<ncol mat. is_nan (sgk_distances2 mat s2 a ! s)"
  shows "no_numbers (accumulate correction (weights (sgk_distances2 mat s2 a) density) st)"
  by (rule accumulate_no_numbers, rule weights_nan) (simp add: assms)

lemma initial_state_has_shape: "has_shape ngenes ncells (initial_state ngenes ncells)"
  by (simp add: has_shape_def initial_state_def)

lemma divide_no_numbers:
  assumes "no_numbers st"
  shows "\<forall>col\<in>set (divide_by_totalprob st). \<forall>val\<in>set col. is_nan val"
  using assms unfolding no_numbers_def divide_by_totalprob_def
  by (auto dest!: set_zip_leftD simp: is_nan_arith)

lemma divide_has_shape:
  assumes "has_shape ngenes ncells st"
  shows "length (divide_by_totalprob st) = ncells \<and>
         (\<forall>col\<in>set (divide_by_totalprob st). length col = ngenes)"
  using assms unfolding has_shape_def divide_by_totalprob_def
  by (auto dest!: set_zip_leftD)

lemma no_numbers_same:
  assumes "length out1 = n" "\<forall>col\<in>set out1. length col = g" "\<forall>col\<in>set out1. \<forall>val\<in>set col. is_nan val"
    and "length out2 = n" "\<forall>col\<in>set out2. length col = g" "\<forall>col\<in>set out2. \<forall>val\<in>set col. is_nan val"
  shows "list_all2 (list_all2 same_number) out1 out2"
proof -
  have "same_number (out1 ! i ! j) (out2 ! i ! j)" if "i < n" "j < g" for i j
  proof -
    have c: "out1 ! i \<in> set out1" "out2 ! i \<in> set out2" using that(1) assms(1,4) by simp_all
    then have "out1 ! i ! j \<in> set (out1 ! i)" "out2 ! i ! j \<in> set (out2 ! i)"
      using that(2) assms(2,5) by simp_all
    then show ?thesis using c assms(3,6) by (simp add: same_number_def)
  qed
  moreover have "length (out1 ! i) = g" "length (out2 ! i) = g" if "i < n" for i
    using that assms(1,2,4,5) by simp_all
  ultimately show ?thesis using assms(1,4) by (simp add: list_all2_conv_all_nth)
qed

lemma run_loop_reaches:
  assumes step_P: "\<And>m st st1. m \<in> M \<Longrightarrow> P st \<Longrightarrow> body m st = Inr st1 \<Longrightarrow> P st1"
    and step_a: "\<And>st st1. P st \<Longrightarrow> body a st = Inr st1 \<Longrightarrow> Q st1"
    and step_Q: "\<And>m st st1. m \<in> M \<Longrightarrow> Q st \<Longrightarrow> body m st = Inr st1 \<Longrightarrow> Q st1"
  shows "run_loop body ms st = Inr st' \<Longrightarrow> set ms \<subseteq> M \<Longrightarrow> P st \<Longrightarrow> Q st \<or> a \<in> set ms \<Longrightarrow>
           P st' \<and> Q st'"
proof (induction ms arbitrary: st)
  case Nil
  then show ?case by simp
next
  case (Cons m ms)
  from Cons.prems(1) obtain st1 where
    st1: "body m st = Inr st1" "run_loop body ms st1 = Inr st'"
    by (auto split: sum.splits)
  have m: "m \<in> M" "set ms \<subseteq> M" using Cons.prems(2) by simp_all
  have P1: "P st1" using step_P[OF m(1) Cons.prems(3) st1(1)] .
  have "Q st1 \<or> a \<in> set ms"
  proof (cases "Q st")
    case True
    then show ?thesis using step_Q[OF m(1) _ st1(1)] by simp
  next
    case False
    then have "a = m \<or> a \<in> set ms" using Cons.prems(4) by auto
    then show ?thesis using step_a[OF Cons.prems(3)] st1(1) by auto
  qed
  from Cons.IH[OF st1(2) m(2) P1 this] show ?case .
qed

lemma mnn_smooth_cell_returns:
  assumes "mnn_smooth_cell mat s2 avg mnn st = Inr st1"
  obtains density where
    "st1 = accumulate (averages avg ! nat mnn) (weights (sgk_distances2 mat s2 (nat mnn)) density) st"
  using assms
  by (auto simp: mnn_smooth_cell_def Let_def distances2_agree split: if_splits sum.splits)

lemma mnn_accumulated_no_numbers:
  assumes res: "mnn_accumulated mat s2 avg ngenes (ncol mat) = Inr st"
    and corr: "\<forall>m\<in>set (mnncell avg). length (averages avg ! nat m) = ngenes"
    and a: "a \<in> set (mnncell avg)"
    and nan: "\<forall>s<ncol mat. is_nan (sgk_distances2 mat s2 (nat a) ! s)"
  shows "has_shape ngenes (ncol mat) st \<and> no_numbers st"
proof (rule run_loop_reaches[where body = "mnn_smooth_cell mat s2 avg" and M = "set (mnncell avg)"
      and a = a and ms = "mnncell avg" and st = "initial_state ngenes (ncol mat)"])
  show "has_shape ngenes (ncol mat) st1"
    if "m \<in> set (mnncell avg)" "has_shape ngenes (ncol mat) st0" "mnn_smooth_cell mat s2 avg m st0 = Inr st1"
    for m st0 st1
  proof -
    from that(3) obtain density where
      "st1 = accumulate (averages avg ! nat m) (weights (sgk_distances2 mat s2 (nat m)) density) st0"
      by (rule mnn_smooth_cell_returns)
    then show ?thesis using accumulate_has_shape[OF that(2)] corr that(1) by simp
  qed
  show "no_numbers st1" if "mnn_smooth_cell mat s2 avg a st0 = Inr st1" for st0 st1
  proof -
    from that obtain density where
      "st1 = accumulate (averages avg ! nat a) (weights (sgk_distances2 mat s2 (nat a)) density) st0"
      by (rule mnn_smooth_cell_returns)
    then show ?thesis using accumulate_weights_nan[OF nan] by simp
  qed
  show "no_numbers st1" if "no_numbers st0" "mnn_smooth_cell mat s2 avg m st0 = Inr st1" for m st0 st1
  proof -
    from that(2) obtain density where
      "st1 = accumulate (averages avg ! nat m) (weights (sgk_distances2 mat s2 (nat m)) density) st0"
      by (rule mnn_smooth_cell_returns)
    then show ?thesis using accumulate_no_numbers_kept[OF that(1)] by simp
  qed
  show "run_loop (mnn_smooth_cell mat s2 avg) (mnncell avg) (initial_state ngenes (ncol mat)) = Inr st"
    using res by (simp add: mnn_accumulated_def)
  show "set (mnncell avg) \<subseteq> set (mnncell avg)" by simp
  show "has_shape ngenes (ncol mat) (initial_state ngenes (ncol mat))"
    by (rule initial_state_has_shape)
  show "no_numbers (initial_state ngenes (ncol mat)) \<or> a \<in> set (mnncell avg)"
    using a by simp
qed

lemma sgk_accumulated_no_numbers:
  assumes corr: "\<forall>m\<in>set (mnncell avg). length (averages avg ! nat m) = ngenes"
    and a: "a \<in> set (mnncell avg)"
    and nan: "\<forall>s<ncol mat. is_nan (sgk_distances2 mat s2 (nat a) ! s)"
  shows "has_shape ngenes (ncol mat) (sgk_accumulated mat s2 avg ngenes (ncol mat)) \<and>
         no_numbers (sgk_accumulated mat s2 avg ngenes (ncol mat))"
proof (rule run_loop_reaches[where body = "\<lambda>m st. Inr (sgk_smooth_cell mat s2 avg m st)"
      and M = "set (mnncell avg)" and a = a and ms = "mnncell avg"
      and st = "initial_state ngenes (ncol mat)"])
  show "has_shape ngenes (ncol mat) st1"
    if "m \<in> set (mnncell avg)" "has_shape ngenes (ncol mat) st0"
      "Inr (sgk_smooth_cell mat s2 avg m st0) = (Inr st1 :: error + smooth_state)"
    for m st0 st1
    using accumulate_has_shape[OF that(2)] corr that(1,3)
    by (auto simp: sgk_smooth_cell_def Let_def)
  show "no_numbers st1"
    if "Inr (sgk_smooth_cell mat s2 avg a st0) = (Inr st1 :: error + smooth_state)" for st0 st1
    using that accumulate_weights_nan[OF nan]
    by (auto simp: sgk_smooth_cell_def Let_def)
  show "no_numbers st1"
    if "no_numbers st0" "Inr (sgk_smooth_cell mat s2 avg m st0) = (Inr st1 :: error + smooth_state)"
    for m st0 st1
    using accumulate_no_numbers_kept[OF that(1)] that(2)
    by (auto simp: sgk_smooth_cell_def Let_def)
  show "run_loop (\<lambda>m st. Inr (sgk_smooth_cell mat s2 avg m st)) (mnncell avg)
      (initial_state ngenes (ncol mat)) = Inr (sgk_accumulated mat s2 avg ngenes (ncol mat))"
    unfolding sgk_accumulated_def by (rule run_loop_total) simp
  show "set (mnncell avg) \<subseteq> set (mnncell avg)" by simp
  show "has_shape ngenes (ncol mat) (initial_state ngenes (ncol mat))"
    by (rule initial_state_has_shape)
  show "no_numbers (initial_state ngenes (ncol mat)) \<or> a \<in> set (mnncell avg)"
    using a by simp
qed

lemma implementations_same_numbers:
  assumes sgk: "smooth_gaussian_kernel chk vect index data sigma = Inr out1"
    and mnn: "smooth_gaussian_kernel_mnn chk vect index data sigma = Inr out2"
  shows "list_all2 (list_all2 same_number) out1 out2"
proof (cases "(\<forall>i\<in>set index. \<forall>r<nrow data. elem data r (nat i) \<noteq> NA) \<and>
    (index = [] \<or> chk sigma ''sigma'' \<noteq> Inr NA)")
  case True
  have "out1 = out2"
    by (rule implementations_agree[where chk=chk and sigma=sigma and index=index and data=data
          and vect=vect]) (use sgk mnn True in simp_all)
  then show ?thesis by (simp add: list.rel_refl same_number_def)
next
  case False
  have len: "nrow vect = length index"
    using sgk by (auto simp: smooth_gaussian_kernel_def Let_def split: if_splits)
  obtain s2 where s2: "chk sigma ''sigma'' = Inr s2"
    using sgk len by (auto simp: smooth_gaussian_kernel_def Let_def split: sum.splits)
  have rng: "\<forall>i\<in>set index. 0 \<le> i \<and> i < int (ncol data)"
  proof (rule ccontr)
    assume "\<not> ?thesis"
    from smooth_out_of_bounds[where chk=chk and sigma=sigma, OF len s2 this]
    show False using sgk by simp
  qed
  obtain a where a: "a \<in> set index" "s2 = NA \<or> (\<exists>r<nrow data. elem data r (nat a) = NA)"
  proof (cases "\<forall>i\<in>set index. \<forall>r<nrow data. elem data r (nat i) \<noteq> NA")
    case True
    then have "index \<noteq> []" "s2 = NA" using False s2 by auto
    then have "hd index \<in> set index" "s2 = NA \<or> (\<exists>r<nrow data. elem data r (nat (hd index)) = NA)"
      by simp_all
    then show ?thesis by (rule that)
  next
    case False
    then obtain i where "i \<in> set index" "\<exists>r<nrow data. elem data r (nat i) = NA" by blast
    then show ?thesis using that by blast
  qed
  have nan: "\<forall>s<ncol data. is_nan (sgk_distances2 data s2 (nat a) ! s)"
    using distances2_nan[OF a(2)] by simp
  from sgk_averages_mean[OF len rng] obtain avg where
    avg: "sgk_averages vect index (ncol data) = Inr avg" "set (mnncell avg) = set index"
      "\<forall>i\<in>set index. averages avg ! nat i = arithmetic_mean vect index i"
    by blast
  have "\<forall>i\<in>set index. 0 \<le> i \<and> i < 2147483647" using rng below_ncol_small by blast
  from mnn_averages_char[OF len this] obtain avg' where
    avg': "mnn_averages vect index = Inr avg'" "set (mnncell avg') = set index"
      "\<forall>i\<in>set index. averages avg' ! nat i = arithmetic_mean vect index i"
    by blast
  have c: "\<forall>m\<in>set (mnncell avg). length (averages avg ! nat m) = ncol vect"
    using avg(2,3) by simp
  have c': "\<forall>m\<in>set (mnncell avg'). length (averages avg' ! nat m) = ncol vect"
    using avg'(2,3) by simp
  have m: "a \<in> set (mnncell avg)" "a \<in> set (mnncell avg')" using a(1) avg(2) avg'(2) by simp_all
  let ?st1 = "sgk_accumulated data s2 avg (ncol vect) (ncol data)"
  have out1: "out1 = divide_by_totalprob ?st1"
    using sgk len s2 avg(1) by (simp add: smooth_gaussian_kernel_def)
  obtain st2 where st2: "mnn_accumulated data s2 avg' (ncol vect) (ncol data) = Inr st2"
    and out2: "out2 = divide_by_totalprob st2"
    using mnn len s2 avg'(1) by (auto simp: smooth_gaussian_kernel_mnn_def split: sum.splits)
  have 1: "has_shape (ncol vect) (ncol data) ?st1" "no_numbers ?st1"
    using sgk_accumulated_no_numbers[OF c m(1) nan] by simp_all
  have 2: "has_shape (ncol vect) (ncol data) st2" "no_numbers st2"
    using mnn_accumulated_no_numbers[OF st2 c' m(2) nan] by simp_all
  show ?thesis
    unfolding out1 out2
    using divide_has_shape[OF 1(1)] divide_no_numbers[OF 1(2)]
      divide_has_shape[OF 2(1)] divide_no_numbers[OF 2(2)]
    by (intro no_numbers_same[where n = "ncol data" and g = "ncol vect"]) simp_all
qed

section \<open>Sorting the reference batch and walking to the quantile\<close>

lemma find_quantile_not_reached:
  "\<not> reaches xs cumulative goal \<Longrightarrow> find_quantile xs cumulative goal rq = rq"
  by (induction xs arbitrary: cumulative) (auto simp: Let_def)

lemma find_quantile_reached:
  "reaches xs cumulative goal \<Longrightarrow> find_quantile xs cumulative goal rq \<in> fst ` set xs"
  by (induction xs arbitrary: cumulative) (auto simp: Let_def)

lemma set_insert_sorted [simp]: "set (insert_sorted x ys) = insert x (set ys)"
  by (induction ys) auto

lemma length_insert_sorted [simp]: "length (insert_sorted x ys) = Suc (length ys)"
  by (induction ys) auto

lemma set_std_sort [simp]: "set (std_sort xs) = set xs"
  by (induction xs) (simp_all add: std_sort_def)

lemma length_std_sort [simp]: "length (std_sort xs) = length xs"
  by (induction xs) (simp_all add: std_sort_def)

lemma dle_total: "\<not> is_nan x \<Longrightarrow> \<not> is_nan y \<Longrightarrow> \<not> dless x y \<Longrightarrow> dle y x"
  by (cases x; cases y) (auto simp: dle_def)

lemma dless_dle: "dless x y \<Longrightarrow> dle x y"
  by (simp add: dle_def)

lemma dle_trans: "dle x y \<Longrightarrow> dle y z \<Longrightarrow> dle x z"
  by (cases x; cases y; cases z) (auto simp: dle_def)

lemma dle_refl: "\<not> is_nan x \<Longrightarrow> dle x x"
  by (simp add: dle_def)

lemma sorted_insert_sorted:
  assumes "\<not> is_nan (fst x)" "\<forall>p\<in>set ys. \<not> is_nan (fst p)"
    and "sorted_wrt (\<lambda>a b. dle (fst a) (fst b)) ys"
  shows "sorted_wrt (\<lambda>a b. dle (fst a) (fst b)) (insert_sorted x ys)"
  using assms(2,3)
proof (induction ys)
  case Nil
  then show ?case by simp
next
  case (Cons y ys)
  show ?case
  proof (cases "pair_less x y")
    case True
    then have xy: "dle (fst x) (fst y)"
      using assms(1) Cons.prems(1) dle_total[of "fst y" "fst x"]
      by (auto simp: pair_less_def dless_dle)
    have "\<forall>p\<in>set ys. dle (fst x) (fst p)"
      using xy Cons.prems(2) dle_trans by auto
    then show ?thesis using True xy Cons.prems(2) by simp
  next
    case False
    then have yx: "dle (fst y) (fst x)"
      using assms(1) Cons.prems(1) dle_total[of "fst x" "fst y"]
      by (auto simp: pair_less_def)
    show ?thesis using False yx Cons by auto
  qed
qed

lemma sorted_std_sort:
  "\<forall>p\<in>set xs. \<not> is_nan (fst p) \<Longrightarrow> sorted_wrt (\<lambda>a b. dle (fst a) (fst b)) (std_sort xs)"
proof (induction xs)
  case Nil
  then show ?case by (simp add: std_sort_def)
next
  case (Cons x xs)
  have "sorted_wrt (\<lambda>a b. dle (fst a) (fst b)) (insert_sorted x (std_sort xs))"
    by (rule sorted_insert_sorted) (use Cons in auto)
  then show ?case by (simp add: std_sort_def)
qed

lemma sorted_last_largest:
  assumes "sorted_wrt (\<lambda>a b. dle (fst a) (fst b)) ys" "\<forall>p\<in>set ys. \<not> is_nan (fst p)" "p \<in> set ys"
  shows "dle (fst p) (fst (last ys))"
  using assms
proof (induction ys)
  case Nil
  then show ?case by simp
next
  case (Cons y ys)
  show ?case
  proof (cases "ys = []")
    case True
    then show ?thesis using Cons.prems by (simp add: dle_refl)
  next
    case False
    then have l: "last ys \<in> set ys" by simp
    show ?thesis
    proof (cases "p = y")
      case True
      then show ?thesis using Cons.prems(1) l False by auto
    next
      case False
      then show ?thesis using Cons \<open>ys \<noteq> []\<close> by auto
    qed
  qed
qed

lemma map_fst_reference_batch:
  "map fst (reference_batch d1 s2 (get_const_col d2 cell) (unit_vector (get_row v cell)))
     = reference_projections d1 v cell"
  by (simp add: reference_batch_def reference_projections_def Let_def comp_def)

lemma adjust_cell_distance1:
  "distance1 (adjust_cell d1 d2 v s2 cell) =
     std_sort (reference_batch d1 s2 (get_const_col d2 cell) (unit_vector (get_row v cell)))"
  by (simp add: adjust_cell_def Let_def split: prod.split)

lemma adjust_cell_ref_quan:
  "ref_quan (adjust_cell d1 d2 v s2 cell) =
     find_quantile (distance1 (adjust_cell d1 d2 v s2 cell)) (Fin 0) (target (adjust_cell d1 d2 v s2 cell))
       (if ncol d1 \<noteq> 0 then fst (last (distance1 (adjust_cell d1 d2 v s2 cell))) else NA)"
  by (simp add: adjust_cell_def Let_def split: prod.split)

lemma fst_set_distance1:
  "fst ` set (distance1 (adjust_cell d1 d2 v s2 cell)) = set (reference_projections d1 v cell)"
  using map_fst_reference_batch[of d1 s2 d2 cell v]
  by (simp add: adjust_cell_distance1 flip: set_map)

lemma distance1_empty_iff:
  "distance1 (adjust_cell d1 d2 v s2 cell) = [] \<longleftrightarrow> ncol d1 = 0"
proof -
  have "length (distance1 (adjust_cell d1 d2 v s2 cell)) = ncol d1"
    by (simp add: adjust_cell_distance1 reference_batch_def)
  then show ?thesis by (metis length_0_conv)
qed

section \<open>The norm of a gradient\<close>

lemma all_finite_map_Fin: "\<forall>g\<in>set gs. is_finite g \<Longrightarrow> \<exists>as. gs = map Fin as"
proof (induction gs)
  case Nil
  then show ?case by simp
next
  case (Cons g gs)
  then obtain as where "gs = map Fin as" by auto
  moreover obtain a where "g = Fin a" using Cons.prems by (auto simp: is_finite_iff)
  ultimately have "g # gs = map Fin (a # as)" by simp
  then show ?case by (rule exI[of _ "a # as"])
qed

lemma sum_squares_finite:
  "foldl (\<lambda>l2norm g. dadd l2norm (dmul g g)) (Fin c) (map Fin as) = Fin (c + (\<Sum>a\<leftarrow>as. a * a))"
  by (induction as arbitrary: c) (simp_all add: add.assoc)

lemma sum_squares_nonneg: "0 \<le> (\<Sum>a\<leftarrow>as. a * (a :: real))"
  by (induction as) simp_all

lemma l2norm_finite: "l2norm_of (map Fin as) = Fin (sqrt (\<Sum>a\<leftarrow>as. a * a))"
proof -
  show ?thesis by (simp add: l2norm_of_def sum_squares_finite sum_squares_nonneg)
qed

lemma sum_squares_after_non_finite:
  assumes "0 < k" "acc = PInf \<or> acc = NaN \<or> acc = NA"
  shows "foldl (\<lambda>l2norm g. dadd l2norm (dmul g g)) acc (map (dmul (Fin k)) gs) =
           foldl (\<lambda>l2norm g. dadd l2norm (dmul g g)) acc gs \<and>
         (foldl (\<lambda>l2norm g. dadd l2norm (dmul g g)) acc gs = PInf \<or>
          foldl (\<lambda>l2norm g. dadd l2norm (dmul g g)) acc gs = NaN \<or>
          foldl (\<lambda>l2norm g. dadd l2norm (dmul g g)) acc gs = NA)"
  using assms(2)
proof (induction gs arbitrary: acc)
  case Nil
  then show ?case by simp
next
  case (Cons g gs)
  have e: "dadd acc (dmul (dmul (Fin k) g) (dmul (Fin k) g)) = dadd acc (dmul g g)"
    using Cons.prems assms(1) by (cases g) auto
  have n: "dadd acc (dmul g g) = PInf \<or> dadd acc (dmul g g) = NaN \<or> dadd acc (dmul g g) = NA"
    using Cons.prems by (cases g) auto
  from Cons.IH[OF n] show ?case by (simp add: e)
qed

lemma sum_squares_non_finite:
  assumes "0 < k" "\<exists>g\<in>set gs. \<not> is_finite g"
  shows "foldl (\<lambda>l2norm g. dadd l2norm (dmul g g)) (Fin a') (map (dmul (Fin k)) gs) =
           foldl (\<lambda>l2norm g. dadd l2norm (dmul g g)) (Fin a) gs \<and>
         (foldl (\<lambda>l2norm g. dadd l2norm (dmul g g)) (Fin a) gs = PInf \<or>
          foldl (\<lambda>l2norm g. dadd l2norm (dmul g g)) (Fin a) gs = NaN \<or>
          foldl (\<lambda>l2norm g. dadd l2norm (dmul g g)) (Fin a) gs = NA)"
  using assms(2)
proof (induction gs arbitrary: a a')
  case Nil
  then show ?case by simp
next
  case (Cons g gs)
  show ?case
  proof (cases "is_finite g")
    case True
    then obtain b where b: "g = Fin b" by (auto simp: is_finite_iff)
    have "\<exists>g\<in>set gs. \<not> is_finite g" using Cons.prems True by auto
    from Cons.IH[OF this, of "a' + k * b * (k * b)" "a + b * b"] show ?thesis by (simp add: b)
  next
    case False
    have e: "dadd (Fin a') (dmul (dmul (Fin k) g) (dmul (Fin k) g)) = dadd (Fin a) (dmul g g)"
      using False assms(1) by (cases g) auto
    have n: "dadd (Fin a) (dmul g g) = PInf \<or> dadd (Fin a) (dmul g g) = NaN \<or> dadd (Fin a) (dmul g g) = NA"
      using False by (cases g) auto
    from sum_squares_after_non_finite[OF assms(1) n, of gs] show ?thesis by (simp add: e)
  qed
qed

lemma l2norm_scaled_non_finite:
  assumes "0 < k" "\<exists>g\<in>set gs. \<not> is_finite g"
  shows "l2norm_of (map (dmul (Fin k)) gs) = l2norm_of gs \<and>
         (l2norm_of gs = PInf \<or> l2norm_of gs = NaN \<or> l2norm_of gs = NA)"
  using sum_squares_non_finite[OF assms, of 0 0] by (auto simp: l2norm_of_def)

section \<open>A gradient without direction\<close>

lemma sum_squares_zero: "(\<Sum>a\<leftarrow>as. a * (a :: real)) = 0 \<Longrightarrow> \<forall>a\<in>set as. a = 0"
proof (induction as)
  case Nil
  then show ?case by simp
next
  case (Cons a as)
  have "0 \<le> a * a" "0 \<le> (\<Sum>a\<leftarrow>as. a * a)" by (simp_all add: sum_squares_nonneg)
  then have "a * a = 0 \<and> (\<Sum>a\<leftarrow>as. a * a) = 0"
    using Cons.prems by (simp add: add_nonneg_eq_0_iff)
  then show ?case using Cons.IH by simp
qed

lemma l2norm_zero_all_zero:
  assumes "l2norm_of gs = Fin 0"
  shows "\<forall>g\<in>set gs. g = Fin 0"
proof (cases "\<forall>g\<in>set gs. is_finite g")
  case True
  then obtain as where as: "gs = map Fin as" using all_finite_map_Fin by blast
  have "sqrt (\<Sum>a\<leftarrow>as. a * a) = 0" using assms by (simp add: as l2norm_finite)
  then have "\<forall>a\<in>set as. a = 0" using sum_squares_zero by simp
  then show ?thesis by (auto simp: as)
next
  case False
  then have "\<exists>g\<in>set gs. \<not> is_finite g" by simp
  from l2norm_scaled_non_finite[OF zero_less_one this] show ?thesis using assms by simp
qed

lemma inner_product_from_nan:
  "foldl (\<lambda>acc (x, y). dadd acc (dmul x y)) NaN ps = NaN"
  by (induction ps) auto

lemma inner_product_nan_vector:
  assumes "\<forall>x\<in>set xs. x = NaN" "xs \<noteq> []" "ys \<noteq> []"
  shows "inner_product xs ys = NaN"
proof -
  obtain x xs' y ys' where c: "xs = x # xs'" "ys = y # ys'"
    using assms(2,3) by (cases xs; cases ys) auto
  then have "x = NaN" using assms(1) by simp
  then show ?thesis by (simp add: inner_product_def c inner_product_from_nan)
qed

lemma unit_vector_zero_norm:
  assumes "l2norm_of gs = Fin 0"
  shows "\<forall>x\<in>set (unit_vector gs). x = NaN"
  using l2norm_zero_all_zero[OF assms] by (auto simp: unit_vector_def assms)

lemma find_quantile_range:
  "find_quantile xs cumulative goal rq \<in> insert rq (fst ` set xs)"
  by (induction xs arbitrary: cumulative) (auto simp: Let_def)

lemma adjust_cell_curproj:
  "curproj (adjust_cell d1 d2 v s2 cell) =
     inner_product (unit_vector (get_row v cell)) (get_const_col d2 cell)"
  by (simp add: adjust_cell_def Let_def split: prod.split)

lemma adjust_cell_scaling:
  "scaling (adjust_cell d1 d2 v s2 cell) =
     ddiv (dsub (ref_quan (adjust_cell d1 d2 v s2 cell)) (curproj (adjust_cell d1 d2 v s2 cell)))
       (l2norm_of (get_row v cell))"
  by (simp add: adjust_cell_def Let_def split: prod.split)

lemma ref_quan_range:
  "ref_quan (adjust_cell d1 d2 v s2 cell) \<in> insert NA (set (reference_projections d1 v cell))"
proof -
  let ?r = "adjust_cell d1 d2 v s2 cell"
  let ?rq0 = "if ncol d1 \<noteq> 0 then fst (last (distance1 ?r)) else NA"
  have "?rq0 \<in> insert NA (fst ` set (distance1 ?r))"
  proof (cases "ncol d1 = 0")
    case True
    then show ?thesis by simp
  next
    case False
    then have "distance1 ?r \<noteq> []" by (simp add: distance1_empty_iff)
    then have "last (distance1 ?r) \<in> set (distance1 ?r)" by simp
    then show ?thesis using False by simp
  qed
  moreover have "ref_quan ?r \<in> insert ?rq0 (fst ` set (distance1 ?r))"
    unfolding adjust_cell_ref_quan[of d1 d2 v s2 cell] by (rule find_quantile_range)
  ultimately show ?thesis by (auto simp: fst_set_distance1)
qed

lemma zero_norm_scaling_is_nan:
  assumes dims: "nrow d2 = ncol v" and z: "l2norm_of (get_row v cell) = Fin 0"
  shows "is_nan (scaling (adjust_cell d1 d2 v s2 cell))"
proof (cases "ncol v = 0")
  case True
  then have g: "get_row v cell = []" by (simp add: get_row_def)
  have c: "curproj (adjust_cell d1 d2 v s2 cell) = Fin 0"
    by (simp add: adjust_cell_curproj g unit_vector_def inner_product_def)
  have "set (reference_projections d1 v cell) \<subseteq> {Fin 0}"
    by (auto simp: reference_projections_def g unit_vector_def inner_product_def)
  then have "ref_quan (adjust_cell d1 d2 v s2 cell) = NA \<or> ref_quan (adjust_cell d1 d2 v s2 cell) = Fin 0"
    using ref_quan_range[of d1 d2 v s2 cell] by auto
  then show ?thesis unfolding adjust_cell_scaling z c by (auto simp: dsub_def)
next
  case False
  then have "unit_vector (get_row v cell) \<noteq> []" "get_const_col d2 cell \<noteq> []"
    using dims by (simp_all add: unit_vector_def get_row_def get_const_col_def)
  with unit_vector_zero_norm[OF z] have "curproj (adjust_cell d1 d2 v s2 cell) = NaN"
    unfolding adjust_cell_curproj by (rule inner_product_nan_vector)
  then show ?thesis unfolding adjust_cell_scaling z
    by (cases "ref_quan (adjust_cell d1 d2 v s2 cell)") (simp_all add: dsub_def)
qed

section \<open>Properties of the two routines\<close>

subsection \<open>The per-anchor average map\<close>

text \<open>
  C1, as the code has it. When the anchor index has as many entries as the correction
  vectors have rows, and every entry is the index of a cell (\<open>0 \<le> i < N\<close>, with \<open>N\<close> the
  number of columns of the data matrix), the averaging block of both implementations of
  \<open>smooth_gaussian_kernel\<close> completes, the set \<open>mnncell\<close> holds exactly the distinct
  identifiers occurring in the index, and for each of them the stored vector is the
  arithmetic mean of the rows of the correction vectors that share the identifier; the
  implementation of smooth\_gaussian\_kernel.cpp also keeps the number of these rows.
\<close>

theorem average_map_is_arithmetic_mean:
  assumes "nrow vect = length index" and "\<forall>i\<in>set index. 0 \<le> i \<and> i < int (ncol data)"
  shows "(\<exists>avg. sgk_averages vect index (ncol data) = Inr avg \<and>
            distinct (mnncell avg) \<and> set (mnncell avg) = set index \<and>
            (\<forall>i\<in>set index. averages avg ! nat i = arithmetic_mean vect index i \<and>
                number avg ! nat i = int (length (rows_sharing index i)))) \<and>
         (\<exists>avg. mnn_averages vect index = Inr avg \<and>
            distinct (mnncell avg) \<and> set (mnncell avg) = set index \<and>
            (\<forall>i\<in>set index. averages avg ! nat i = arithmetic_mean vect index i))"
proof
  from sgk_averages_mean[OF assms] obtain avg where
    "sgk_averages vect index (ncol data) = Inr avg" "sorted_wrt (<) (mnncell avg)"
    "set (mnncell avg) = set index"
    "\<forall>i\<in>set index. averages avg ! nat i = arithmetic_mean vect index i \<and>
         number avg ! nat i = int (length (rows_sharing index i))"
    by blast
  then show "\<exists>avg. sgk_averages vect index (ncol data) = Inr avg \<and>
            distinct (mnncell avg) \<and> set (mnncell avg) = set index \<and>
            (\<forall>i\<in>set index. averages avg ! nat i = arithmetic_mean vect index i \<and>
                number avg ! nat i = int (length (rows_sharing index i)))"
    using sorted_lt_distinct by blast
next
  have "\<forall>i\<in>set index. 0 \<le> i \<and> i < 2147483647" using assms(2) below_ncol_small by blast
  from mnn_averages_char[OF assms(1) this] obtain avg where
    "mnn_averages vect index = Inr avg" "sorted_wrt (<) (mnncell avg)"
    "set (mnncell avg) = set index"
    "\<forall>i\<in>set index. averages avg ! nat i = arithmetic_mean vect index i"
    by blast
  then show "\<exists>avg. mnn_averages vect index = Inr avg \<and>
            distinct (mnncell avg) \<and> set (mnncell avg) = set index \<and>
            (\<forall>i\<in>set index. averages avg ! nat i = arithmetic_mean vect index i)"
    using sorted_lt_distinct by blast
qed

text \<open>
  The example of the specification, with two cells: the index \<open>[0, 0, 1]\<close> with the rows
  \<open>[1, 1]\<close>, \<open>[3, 3]\<close> and \<open>[10, 10]\<close> gives the vectors \<open>[2, 2]\<close> and \<open>[10, 10]\<close>
  with the counts 2 and 1.
\<close>

theorem average_map_example:
  "nrow (matrix_of_rows 2 [[Fin 1, Fin 1], [Fin 3, Fin 3], [Fin 10, Fin 10]]) = length [0, 0, 1 :: int] \<and>
   set [0, 0, 1 :: int] \<subseteq> {0..<int (ncol (matrix_of_rows 2 [[Fin 0, Fin 0]]))} \<and>
   sgk_averages (matrix_of_rows 2 [[Fin 1, Fin 1], [Fin 3, Fin 3], [Fin 10, Fin 10]]) [0, 0, 1]
       (ncol (matrix_of_rows 2 [[Fin 0, Fin 0]])) =
     Inr \<lparr>averages = [[Fin 2, Fin 2], [Fin 10, Fin 10]], number = [2, 1], mnncell = [0, 1]\<rparr> \<and>
   mnn_averages (matrix_of_rows 2 [[Fin 1, Fin 1], [Fin 3, Fin 3], [Fin 10, Fin 10]]) [0, 0, 1] =
     Inr \<lparr>averages = [[Fin 2, Fin 2], [Fin 10, Fin 10]], number = [2, 1], mnncell = [0, 1]\<rparr> \<and>
   arithmetic_mean (matrix_of_rows 2 [[Fin 1, Fin 1], [Fin 3, Fin 3], [Fin 10, Fin 10]]) [0, 0, 1] 0 = [Fin 2, Fin 2] \<and>
   arithmetic_mean (matrix_of_rows 2 [[Fin 1, Fin 1], [Fin 3, Fin 3], [Fin 10, Fin 10]]) [0, 0, 1] 1 = [Fin 10, Fin 10]"
proof -
  let ?V = "matrix_of_rows 2 [[Fin 1, Fin 1], [Fin 3, Fin 3], [Fin 10, Fin 10]]"
  let ?D = "matrix_of_rows 2 [[Fin 0, Fin 0]]"
  let ?I = "[0, 0, 1 :: int]"
  let ?A = "\<lparr>averages = [[Fin 2, Fin 2], [Fin 10, Fin 10]], number = [2, 1 :: int], mnncell = [0, 1 :: int]\<rparr>"
  have n: "ncol ?D = 2" by (simp add: matrix_of_rows_simps)
  have h1: "nrow ?V = length ?I" by (simp add: matrix_of_rows_simps)
  have h2: "\<forall>i\<in>set ?I. 0 \<le> i \<and> i < int (ncol ?D)" by (simp add: n)
  have e1: "sgk_averages ?V ?I (ncol ?D) = Inr ?A"
    unfolding n
    by (simp add: sgk_averages_def sgk_average_row_def matrix_of_rows_simps get_row_def upt_rec
        divide_averages_def add_into_def divide_by_def eval_nat_numeral)
  have e2: "mnn_averages ?V ?I = Inr ?A"
    by (simp add: mnn_averages_def mnn_average_row_def matrix_of_rows_simps get_row_def upt_rec
        divide_averages_def add_into_def divide_by_def resize_def)
  from average_map_is_arithmetic_mean[OF h1 h2] e1
  have "\<forall>i\<in>set ?I. averages ?A ! nat i = arithmetic_mean ?V ?I i" by auto
  then have "arithmetic_mean ?V ?I 0 = [Fin 2, Fin 2]" "arithmetic_mean ?V ?I 1 = [Fin 10, Fin 10]"
    by simp_all
  moreover have "set ?I \<subseteq> {0..<int (ncol ?D)}" by (simp add: n)
  ultimately show ?thesis using h1 e1 e2 by blast
qed

text \<open>
  The claim fails for an index entry that is not the index of a cell; the source never
  looks at the entries. With two cells and the entry 2, smooth\_gaussian\_kernel.cpp
  accesses \<open>averages[2]\<close> outside its two slots, and with the entry -1
  mnn\_correction.cpp resizes its deque to no element and accesses \<open>averages[-1]\<close>: no
  average map is built, although the index has the length of the rows.
\<close>

theorem average_map_needs_cell_indices:
  "nrow (matrix_of_rows 1 [[Fin 5]]) = length [2 :: int] \<and>
   sgk_averages (matrix_of_rows 1 [[Fin 5]]) [2] 2 = Inl OutOfBounds \<and>
   smooth_gaussian_kernel check_numeric_scalar (matrix_of_rows 1 [[Fin 5]]) [2]
      (matrix_of_rows 2 [[Fin 0, Fin 0]]) (Fin 1) = Inl OutOfBounds \<and>
   nrow (matrix_of_rows 1 [[Fin 5]]) = length [- 1 :: int] \<and>
   mnn_averages (matrix_of_rows 1 [[Fin 5]]) [- 1] = Inl OutOfBounds \<and>
   smooth_gaussian_kernel_mnn check_numeric_scalar (matrix_of_rows 1 [[Fin 5]]) [- 1]
      (matrix_of_rows 2 [[Fin 0, Fin 0]]) (Fin 1) = Inl OutOfBounds"
  by (simp add: smooth_gaussian_kernel_def smooth_gaussian_kernel_mnn_def check_numeric_scalar_def
      dle_def sgk_averages_def mnn_averages_def matrix_of_rows_simps sgk_average_row_def
      mnn_average_row_def get_row_def Let_def)

subsection \<open>The two implementations agree\<close>




subsection \<open>A zero total probability\<close>

text \<open>
  C3, as the code has it. Neither implementation tests the total probability of a cell:
  a call that passes the length check and the scalar check, with every index entry the
  index of a cell, returns the accumulated matrix divided by the total probabilities,
  and where the total probability of a cell is zero every entry of the column of that
  cell is a quotient by zero, which is not a finite number (NaN for a zero or NaN
  numerator). No error is raised.
\<close>

theorem zero_total_probability_gives_non_finite_column:
  assumes "nrow vect = length index" and "\<forall>i\<in>set index. 0 \<le> i \<and> i < int (ncol data)"
    and "chk sigma ''sigma'' = Inr s2"
  shows "(\<exists>avg. sgk_averages vect index (ncol data) = Inr avg \<and>
            smooth_gaussian_kernel chk vect index data sigma =
              Inr (divide_by_totalprob (sgk_accumulated data s2 avg (ncol vect) (ncol data))) \<and>
            (\<forall>s<ncol data. totalprob (sgk_accumulated data s2 avg (ncol vect) (ncol data)) ! s = Fin 0 \<longrightarrow>
                (\<forall>val\<in>set (divide_by_totalprob (sgk_accumulated data s2 avg (ncol vect) (ncol data)) ! s).
                    \<not> is_finite val))) \<and>
         (\<exists>avg st. mnn_averages vect index = Inr avg \<and>
            mnn_accumulated data s2 avg (ncol vect) (ncol data) = Inr st \<and>
            smooth_gaussian_kernel_mnn chk vect index data sigma = Inr (divide_by_totalprob st) \<and>
            (\<forall>s<ncol data. totalprob st ! s = Fin 0 \<longrightarrow>
                (\<forall>val\<in>set (divide_by_totalprob st ! s). \<not> is_finite val)))"
proof
  from sgk_averages_mean[OF assms(1,2)] obtain avg where
    avg: "sgk_averages vect index (ncol data) = Inr avg" by blast
  let ?st = "sgk_accumulated data s2 avg (ncol vect) (ncol data)"
  have r: "smooth_gaussian_kernel chk vect index data sigma = Inr (divide_by_totalprob ?st)"
    using assms(1,3) avg by (simp add: smooth_gaussian_kernel_def)
  have "\<forall>s<ncol data. totalprob ?st ! s = Fin 0 \<longrightarrow> (\<forall>val\<in>set (divide_by_totalprob ?st ! s). \<not> is_finite val)"
    using zero_total_not_finite[of _ ?st] sgk_accumulated_lengths[of data s2 avg "ncol vect"]
    by simp
  then show "\<exists>avg. sgk_averages vect index (ncol data) = Inr avg \<and>
            smooth_gaussian_kernel chk vect index data sigma =
              Inr (divide_by_totalprob (sgk_accumulated data s2 avg (ncol vect) (ncol data))) \<and>
            (\<forall>s<ncol data. totalprob (sgk_accumulated data s2 avg (ncol vect) (ncol data)) ! s = Fin 0 \<longrightarrow>
                (\<forall>val\<in>set (divide_by_totalprob (sgk_accumulated data s2 avg (ncol vect) (ncol data)) ! s).
                    \<not> is_finite val))"
    using avg r by blast
next
  have "\<forall>i\<in>set index. 0 \<le> i \<and> i < 2147483647" using assms(2) below_ncol_small by blast
  from mnn_averages_char[OF assms(1) this] obtain avg where
    avg: "mnn_averages vect index = Inr avg" "set (mnncell avg) = set index" by blast
  then have "\<forall>other\<in>set (mnncell avg). 0 \<le> other \<and> other < int (ncol data)"
    using assms(2) by simp
  from mnn_accumulated_ok[OF this, of s2 "ncol vect"] obtain st where
    st: "mnn_accumulated data s2 avg (ncol vect) (ncol data) = Inr st"
      "length (output_columns st) = ncol data" "length (totalprob st) = ncol data" by blast
  have r: "smooth_gaussian_kernel_mnn chk vect index data sigma = Inr (divide_by_totalprob st)"
    using assms(1,3) avg(1) st(1) by (simp add: smooth_gaussian_kernel_mnn_def)
  have "\<forall>s<ncol data. totalprob st ! s = Fin 0 \<longrightarrow> (\<forall>val\<in>set (divide_by_totalprob st ! s). \<not> is_finite val)"
    using zero_total_not_finite[of _ st] st(2,3) by simp
  then show "\<exists>avg st. mnn_averages vect index = Inr avg \<and>
            mnn_accumulated data s2 avg (ncol vect) (ncol data) = Inr st \<and>
            smooth_gaussian_kernel_mnn chk vect index data sigma = Inr (divide_by_totalprob st) \<and>
            (\<forall>s<ncol data. totalprob st ! s = Fin 0 \<longrightarrow>
                (\<forall>val\<in>set (divide_by_totalprob st ! s). \<not> is_finite val))"
    using avg(1) st(1) r by blast
qed

text \<open>
  Without any MNN pair no cell receives weight: the call for one gene and one cell returns
  the matrix whose only entry is NaN.
\<close>

theorem zero_total_probability_no_pairs:
  "smooth_gaussian_kernel check_numeric_scalar (matrix_of_rows 1 []) [] (matrix_of_rows 1 [[Fin 0]]) (Fin 1)
     = Inr [[NaN]] \<and>
   totalprob (sgk_accumulated (matrix_of_rows 1 [[Fin 0]]) (Fin 1)
      \<lparr>averages = [[]], number = [0], mnncell = []\<rparr> 1 1) ! 0 = Fin 0 \<and>
   \<not> is_finite NaN"
proof -
  let ?V = "matrix_of_rows 1 []" and ?D = "matrix_of_rows 1 [[Fin 0]]"
  have h1: "nrow ?V = length ([] :: int list)" by (simp add: matrix_of_rows_simps)
  have h2: "\<forall>i\<in>set ([] :: int list). 0 \<le> i \<and> i < int (ncol ?D)" by simp
  have h3: "check_numeric_scalar (Fin 1) ''sigma'' = Inr (Fin 1)"
    by (simp add: check_numeric_scalar_def dle_def)
  have a: "sgk_averages ?V [] (ncol ?D) = Inr \<lparr>averages = [[]], number = [0], mnncell = []\<rparr>"
    by (simp add: sgk_averages_def matrix_of_rows_simps divide_averages_def)
  have t: "sgk_accumulated ?D (Fin 1) \<lparr>averages = [[]], number = [0], mnncell = []\<rparr> 1 1 =
      \<lparr>output_columns = [[Fin 0]], totalprob = [Fin 0]\<rparr>"
    by (simp add: sgk_accumulated_def initial_state_def)
  from zero_total_probability_gives_non_finite_column[where chk=check_numeric_scalar and sigma="Fin 1", OF h1 h2 h3] a
  have "smooth_gaussian_kernel check_numeric_scalar ?V [] ?D (Fin 1) =
      Inr (divide_by_totalprob (sgk_accumulated ?D (Fin 1) \<lparr>averages = [[]], number = [0], mnncell = []\<rparr> (ncol ?V) (ncol ?D)))"
    by auto
  then have "smooth_gaussian_kernel check_numeric_scalar ?V [] ?D (Fin 1) = Inr [[NaN]]"
    using t by (simp add: matrix_of_rows_simps divide_by_totalprob_def)
  then show ?thesis using t by simp
qed

text \<open>
  The claim fails: with one MNN pair at cell 0 and a second cell at an infinite distance,
  the total probability of the second cell is zero, and both implementations return a
  matrix whose second column is NaN instead of raising an error.
\<close>

theorem zero_total_probability_returns_nan:
  "totalprob (sgk_accumulated (matrix_of_rows 2 [[Fin 0, PInf]]) (Fin 1)
      \<lparr>averages = [[Fin 5], []], number = [1, 0], mnncell = [0]\<rparr> 1 2) ! 1 = Fin 0 \<and>
   smooth_gaussian_kernel check_numeric_scalar (matrix_of_rows 1 [[Fin 5]]) [0]
      (matrix_of_rows 2 [[Fin 0, PInf]]) (Fin 1) = Inr [[Fin 5], [NaN]] \<and>
   smooth_gaussian_kernel_mnn check_numeric_scalar (matrix_of_rows 1 [[Fin 5]]) [0]
      (matrix_of_rows 2 [[Fin 0, PInf]]) (Fin 1) = Inr [[Fin 5], [NaN]]"
  by (simp add: smooth_gaussian_kernel_def smooth_gaussian_kernel_mnn_def check_numeric_scalar_def
      dle_def sgk_averages_def mnn_averages_def matrix_of_rows_simps divide_averages_def
      initial_state_def divide_by_totalprob_def sgk_average_row_def mnn_average_row_def get_row_def
      get_const_col_def upt_rec divide_by_def sgk_smooth_cell_def mnn_smooth_cell_def
      sgk_distances2_def mnn_distances2_def sq_dist_def accumulate_def weights_def dsub_def
      resize_def sgk_accumulated_def mnn_accumulated_def Let_def eval_nat_numeral)

subsection \<open>A bandwidth that is not positive\<close>

text \<open>
  C4, as the code has it, with the scalar check of the specification. A bandwidth
  \<open>\<sigma>\<^sup>2 \<le> 0\<close> makes \<open>adjust_shift_variance\<close> and both implementations of
  \<open>smooth_gaussian_kernel\<close> fail with the InvalidArgument of the scalar check, once the
  shape checks that precede it have passed: in \<open>adjust_shift_variance\<close> and in
  smooth\_gaussian\_kernel.cpp before any computation, in mnn\_correction.cpp after the
  averaging block, which has to complete first (its index entries are not negative and
  below the largest \<open>int\<close>, 2147483647, for which the resize of the deques fails).
\<close>

theorem non_positive_bandwidth_is_rejected:
  assumes "dle sigma (Fin 0)"
  shows "(nrow data1 = nrow data2 \<and> nrow data1 = ncol v \<and> ncol data2 = nrow v \<longrightarrow>
            adjust_shift_variance check_numeric_scalar data1 data2 v sigma =
              Inl (InvalidArgument ''sigma'')) \<and>
         (nrow vect = length index \<longrightarrow>
            smooth_gaussian_kernel check_numeric_scalar vect index data sigma =
              Inl (InvalidArgument ''sigma'')) \<and>
         (nrow vect = length index \<and> (\<forall>i\<in>set index. 0 \<le> i \<and> i < 2147483647) \<longrightarrow>
            smooth_gaussian_kernel_mnn check_numeric_scalar vect index data sigma =
              Inl (InvalidArgument ''sigma''))"
proof (intro conjI impI)
  have c: "check_numeric_scalar sigma ''sigma'' = Inl (InvalidArgument ''sigma'')"
    using assms by (simp add: check_numeric_scalar_def)
  show "adjust_shift_variance check_numeric_scalar data1 data2 v sigma = Inl (InvalidArgument ''sigma'')"
    if "nrow data1 = nrow data2 \<and> nrow data1 = ncol v \<and> ncol data2 = nrow v"
    using that c by (simp add: adjust_shift_variance_def)
  show "smooth_gaussian_kernel check_numeric_scalar vect index data sigma = Inl (InvalidArgument ''sigma'')"
    if "nrow vect = length index"
    using that c by (simp add: smooth_gaussian_kernel_def)
  show "smooth_gaussian_kernel_mnn check_numeric_scalar vect index data sigma = Inl (InvalidArgument ''sigma'')"
    if a: "nrow vect = length index \<and> (\<forall>i\<in>set index. 0 \<le> i \<and> i < 2147483647)"
  proof -
    from a mnn_averages_char[of vect index] obtain avg where "mnn_averages vect index = Inr avg"
      by blast
    then show ?thesis using a c by (simp add: smooth_gaussian_kernel_mnn_def)
  qed
qed

text \<open>A bandwidth of zero with matrices of matching shapes.\<close>

theorem non_positive_bandwidth_example:
  "dle (Fin 0) (Fin 0) \<and>
   adjust_shift_variance check_numeric_scalar (matrix_of_rows 1 [[Fin 3]])
      (matrix_of_rows 1 [[Fin 1]]) (matrix_of_rows 1 [[Fin 1]]) (Fin 0) = Inl (InvalidArgument ''sigma'') \<and>
   smooth_gaussian_kernel check_numeric_scalar (matrix_of_rows 1 [[Fin 5]]) [0]
      (matrix_of_rows 1 [[Fin 0]]) (Fin 0) = Inl (InvalidArgument ''sigma'') \<and>
   smooth_gaussian_kernel_mnn check_numeric_scalar (matrix_of_rows 1 [[Fin 5]]) [0]
      (matrix_of_rows 1 [[Fin 0]]) (Fin 0) = Inl (InvalidArgument ''sigma'')"
proof -
  have z: "dle (Fin 0) (Fin 0)" by (simp add: dle_def)
  have d: "nrow (matrix_of_rows 1 [[Fin 3]]) = nrow (matrix_of_rows 1 [[Fin 1]]) \<and>
      nrow (matrix_of_rows 1 [[Fin 3]]) = ncol (matrix_of_rows 1 [[Fin 1]]) \<and>
      ncol (matrix_of_rows 1 [[Fin 1]]) = nrow (matrix_of_rows 1 [[Fin 1]])"
    by (simp add: matrix_of_rows_simps)
  have l: "nrow (matrix_of_rows 1 [[Fin 5]]) = length [0 :: int]" by (simp add: matrix_of_rows_simps)
  have n: "\<forall>i\<in>set [0 :: int]. 0 \<le> i \<and> i < 2147483647" by simp
  from non_positive_bandwidth_is_rejected[OF z, of "matrix_of_rows 1 [[Fin 3]]"
      "matrix_of_rows 1 [[Fin 1]]" "matrix_of_rows 1 [[Fin 1]]" "matrix_of_rows 1 [[Fin 5]]" "[0]"
      "matrix_of_rows 1 [[Fin 0]]"] d l n
  show ?thesis using z by blast
qed

text \<open>
  The claim fails in two ways. With an index of the wrong length the call fails with the
  DimensionMismatch of the first check, whatever the bandwidth. And mnn\_correction.cpp
  computes the averages before it looks at the bandwidth: with the index entry -1 the
  access outside the deque comes first, and with the index entry 2147483647 the failing
  resize of the deque.
\<close>

theorem non_positive_bandwidth_not_first:
  "dle (Fin 0) (Fin 0) \<and>
   smooth_gaussian_kernel check_numeric_scalar (matrix_of_rows 1 [[Fin 5]]) []
      (matrix_of_rows 1 [[Fin 0]]) (Fin 0) =
     Inl (DimensionMismatch ''number of rows in vect should be equal to length of index'') \<and>
   adjust_shift_variance check_numeric_scalar (matrix_of_rows 1 [[Fin 1], [Fin 2]])
      (matrix_of_rows 1 [[Fin 1]]) (matrix_of_rows 1 [[Fin 1]]) (Fin 0) =
     Inl (DimensionMismatch ''number of genes do not match up between matrices'') \<and>
   smooth_gaussian_kernel_mnn check_numeric_scalar (matrix_of_rows 1 [[Fin 5]]) [- 1]
      (matrix_of_rows 1 [[Fin 0]]) (Fin 0) = Inl OutOfBounds \<and>
   smooth_gaussian_kernel_mnn check_numeric_scalar (matrix_of_rows 1 [[Fin 5]]) [2147483647]
      (matrix_of_rows 1 [[Fin 0]]) (Fin 0) = Inl LengthError"
  by (simp add: dle_def smooth_gaussian_kernel_def smooth_gaussian_kernel_mnn_def
      adjust_shift_variance_def matrix_of_rows_simps mnn_averages_def mnn_average_row_def Let_def)

subsection \<open>The shape checks of the variance adjustment\<close>

text \<open>
  C5. When the number of genes (rows) of the reference matrix differs from that of the
  query matrix or from the length of the gradient vectors (columns of the gradient
  matrix), or the gradient matrix has not one row per cell of the query matrix,
  \<open>adjust_shift_variance\<close> fails with a DimensionMismatch whatever the other arguments
  are: the checks come before the scalar check and before any computation, and nothing
  is returned.
\<close>

theorem adjust_shift_variance_dimension_mismatch:
  assumes "nrow data1 \<noteq> nrow data2 \<or> nrow data1 \<noteq> ncol vect \<or> ncol data2 \<noteq> nrow vect"
  shows "\<exists>msg. adjust_shift_variance chk data1 data2 vect sigma = Inl (DimensionMismatch msg)"
  using assms by (auto simp: adjust_shift_variance_def Let_def)

theorem adjust_shift_variance_dimension_mismatch_example:
  "adjust_shift_variance check_numeric_scalar (matrix_of_rows 1 [[Fin 1], [Fin 2]])
      (matrix_of_rows 1 [[Fin 1]]) (matrix_of_rows 1 [[Fin 1]]) (Fin 1)
     = Inl (DimensionMismatch ''number of genes do not match up between matrices'') \<and>
   adjust_shift_variance check_numeric_scalar (matrix_of_rows 2 [[Fin 1, Fin 2]])
      (matrix_of_rows 2 [[Fin 1, Fin 2]]) (matrix_of_rows 1 [[Fin 1]]) (Fin 1)
     = Inl (DimensionMismatch ''number of cells do not match up between matrices'')"
proof -
  let ?A = "matrix_of_rows 1 [[Fin 1], [Fin 2]]" and ?B = "matrix_of_rows 1 [[Fin 1]]"
  let ?C = "matrix_of_rows 2 [[Fin 1, Fin 2]]"
  have h: "nrow ?A \<noteq> nrow ?B \<or> nrow ?A \<noteq> ncol ?B \<or> ncol ?B \<noteq> nrow ?B"
    by (simp add: matrix_of_rows_simps)
  from adjust_shift_variance_dimension_mismatch[OF h, of check_numeric_scalar "Fin 1"]
  obtain msg where m: "adjust_shift_variance check_numeric_scalar ?A ?B ?B (Fin 1) = Inl (DimensionMismatch msg)"
    by blast
  have "adjust_shift_variance check_numeric_scalar ?A ?B ?B (Fin 1) =
      Inl (DimensionMismatch ''number of genes do not match up between matrices'')"
    using m by (simp add: adjust_shift_variance_def matrix_of_rows_simps)
  moreover have "adjust_shift_variance check_numeric_scalar ?C ?C ?B (Fin 1) =
      Inl (DimensionMismatch ''number of cells do not match up between matrices'')"
    by (simp add: adjust_shift_variance_def matrix_of_rows_simps)
  ultimately show ?thesis by simp
qed

subsection \<open>The matched quantile when the walk finds none\<close>

text \<open>
  C6. For every cell of the second batch: when the reference batch is empty, \<open>ref_quan\<close>
  is the not-a-number \<open>R_NaReal\<close>; when it is not empty and the cumulative weight never
  reaches the target along the sorted pairs, \<open>ref_quan\<close> is the coordinate of the last
  sorted pair, which is the projection of a reference cell and, the projections being
  numbers, the largest of them.
\<close>

theorem ref_quan_without_matching_quantile:
  "(ncol d1 = 0 \<longrightarrow>
      ref_quan (adjust_cell d1 d2 v s2 cell) = NA \<and> is_nan (ref_quan (adjust_cell d1 d2 v s2 cell))) \<and>
   (ncol d1 \<noteq> 0 \<and>
    \<not> reaches (distance1 (adjust_cell d1 d2 v s2 cell)) (Fin 0) (target (adjust_cell d1 d2 v s2 cell)) \<longrightarrow>
      ref_quan (adjust_cell d1 d2 v s2 cell) = fst (last (distance1 (adjust_cell d1 d2 v s2 cell))) \<and>
      ref_quan (adjust_cell d1 d2 v s2 cell) \<in> set (reference_projections d1 v cell) \<and>
      ((\<forall>p\<in>set (reference_projections d1 v cell). \<not> is_nan p) \<longrightarrow>
       (\<forall>p\<in>set (reference_projections d1 v cell). dle p (ref_quan (adjust_cell d1 d2 v s2 cell)))))"
proof (intro conjI impI)
  let ?r = "adjust_cell d1 d2 v s2 cell"
  assume e: "ncol d1 = 0"
  then have "distance1 ?r = []" by (simp add: distance1_empty_iff)
  then show "ref_quan ?r = NA" using e by (simp add: adjust_cell_ref_quan)
  then show "is_nan (ref_quan ?r)" by simp
next
  let ?r = "adjust_cell d1 d2 v s2 cell"
  assume a: "ncol d1 \<noteq> 0 \<and> \<not> reaches (distance1 ?r) (Fin 0) (target ?r)"
  then have ne: "distance1 ?r \<noteq> []" by (simp add: distance1_empty_iff)
  show rq: "ref_quan ?r = fst (last (distance1 ?r))"
    using a by (simp add: adjust_cell_ref_quan find_quantile_not_reached)
  have "last (distance1 ?r) \<in> set (distance1 ?r)" using ne by simp
  then have "fst (last (distance1 ?r)) \<in> fst ` set (distance1 ?r)" by (rule imageI)
  then show "ref_quan ?r \<in> set (reference_projections d1 v cell)"
    by (simp add: rq fst_set_distance1)
  assume nn: "\<forall>p\<in>set (reference_projections d1 v cell). \<not> is_nan p"
  then have nn': "\<forall>q\<in>set (distance1 ?r). \<not> is_nan (fst q)"
    using fst_set_distance1[of d1 d2 v s2 cell] by auto
  then have nn'': "\<forall>q\<in>set (reference_batch d1 s2 (get_const_col d2 cell) (unit_vector (get_row v cell))). \<not> is_nan (fst q)"
    by (simp add: adjust_cell_distance1)
  have s: "sorted_wrt (\<lambda>a b. dle (fst a) (fst b)) (distance1 ?r)"
    unfolding adjust_cell_distance1 by (rule sorted_std_sort[OF nn''])
  show "\<forall>p\<in>set (reference_projections d1 v cell). dle p (ref_quan ?r)"
  proof
    fix p assume "p \<in> set (reference_projections d1 v cell)"
    then have "p \<in> fst ` set (distance1 ?r)" by (simp only: fst_set_distance1)
    then obtain q where q: "q \<in> set (distance1 ?r)" "p = fst q" by (rule imageE)
    from sorted_last_largest[OF s nn' q(1)] show "dle p (ref_quan ?r)" by (simp add: rq q(2))
  qed
qed

text \<open>
  One gene and the gradient \<open>[1]\<close>. Without reference cells \<open>ref_quan\<close> is \<open>NA\<close>. With
  the reference cells at 3 and 5 and a second cell of the own batch that is NaN, the
  target is NaN, no cumulative weight reaches it, and \<open>ref_quan\<close> is 5.
\<close>

theorem ref_quan_without_matching_quantile_example:
  "ref_quan (adjust_cell (matrix_of_rows 0 [[]]) (matrix_of_rows 2 [[Fin 0, NaN]])
      (matrix_of_rows 1 [[Fin 1], [Fin 1]]) (Fin 1) 0) = NA \<and>
   \<not> reaches (distance1 (adjust_cell (matrix_of_rows 2 [[Fin 3, Fin 5]]) (matrix_of_rows 2 [[Fin 0, NaN]])
      (matrix_of_rows 1 [[Fin 1], [Fin 1]]) (Fin 1) 0)) (Fin 0)
      (target (adjust_cell (matrix_of_rows 2 [[Fin 3, Fin 5]]) (matrix_of_rows 2 [[Fin 0, NaN]])
      (matrix_of_rows 1 [[Fin 1], [Fin 1]]) (Fin 1) 0)) \<and>
   reference_projections (matrix_of_rows 2 [[Fin 3, Fin 5]]) (matrix_of_rows 1 [[Fin 1], [Fin 1]]) 0
     = [Fin 3, Fin 5] \<and>
   ref_quan (adjust_cell (matrix_of_rows 2 [[Fin 3, Fin 5]]) (matrix_of_rows 2 [[Fin 0, NaN]])
      (matrix_of_rows 1 [[Fin 1], [Fin 1]]) (Fin 1) 0) = Fin 5"
proof -
  let ?E = "matrix_of_rows 0 [[]]" and ?D1 = "matrix_of_rows 2 [[Fin 3, Fin 5]]"
  let ?D2 = "matrix_of_rows 2 [[Fin 0, NaN]]" and ?V = "matrix_of_rows 1 [[Fin 1], [Fin 1]]"
  have e: "ncol ?E = 0" and n: "ncol ?D1 \<noteq> 0" by (simp_all add: matrix_of_rows_simps)
  have d: "distance1 (adjust_cell ?D1 ?D2 ?V (Fin 1) 0) = [(Fin 3, Fin 1), (Fin 5, Fin 1)]"
    by (simp add: adjust_cell_distance1 reference_batch_def matrix_of_rows_simps get_row_def
        get_const_col_def upt_rec l2norm_of_def unit_vector_def inner_product_def
        sq_distance_to_line_def std_sort_def pair_less_def dsub_def Let_def eval_nat_numeral)
  have t: "target (adjust_cell ?D1 ?D2 ?V (Fin 1) 0) = NaN"
    by (simp add: adjust_cell_def matrix_of_rows_simps get_row_def get_const_col_def upt_rec
        l2norm_of_def unit_vector_def inner_product_def own_batch_def own_batch_step_def
        sq_distance_to_line_def reference_batch_def sum_weights_def dsub_def dle_def Let_def
        eval_nat_numeral)
  have nr: "\<not> reaches (distance1 (adjust_cell ?D1 ?D2 ?V (Fin 1) 0)) (Fin 0)
      (target (adjust_cell ?D1 ?D2 ?V (Fin 1) 0))"
    unfolding d t by (simp add: dle_def)
  have p: "reference_projections ?D1 ?V 0 = [Fin 3, Fin 5]"
    by (simp add: reference_projections_def matrix_of_rows_simps get_row_def get_const_col_def
        upt_rec l2norm_of_def unit_vector_def inner_product_def eval_nat_numeral)
  from ref_quan_without_matching_quantile[of ?E ?D2 ?V "Fin 1" 0] e
  have 1: "ref_quan (adjust_cell ?E ?D2 ?V (Fin 1) 0) = NA" by blast
  from ref_quan_without_matching_quantile[of ?D1 ?D2 ?V "Fin 1" 0] n nr
  have "ref_quan (adjust_cell ?D1 ?D2 ?V (Fin 1) 0) = fst (last (distance1 (adjust_cell ?D1 ?D2 ?V (Fin 1) 0)))"
    by blast
  then have 2: "ref_quan (adjust_cell ?D1 ?D2 ?V (Fin 1) 0) = Fin 5" unfolding d by simp
  show ?thesis using 1 nr p 2 by blast
qed

subsection \<open>A gradient of norm zero\<close>

text \<open>
  C7. A call of \<open>adjust_shift_variance\<close> that passes its checks returns one scaling
  factor per cell of the second batch, each computed from the row of that cell alone, also
  when the gradient of some cell has norm zero: the call does not fail, and the factor of
  such a cell is not a number (the unit vector is \<open>0/0\<close> in every coordinate, and the
  factor a quotient by zero).
\<close>

theorem zero_norm_gradient_gives_non_finite_factor:
  assumes "nrow data1 = nrow data2" and "nrow data1 = ncol vect" and "ncol data2 = nrow vect"
    and "chk sigma ''sigma'' = Inr s2"
  shows "\<exists>out. adjust_shift_variance chk data1 data2 vect sigma = Inr out \<and>
           length out = ncol data2 \<and>
           (\<forall>cell<ncol data2.
               out ! cell = scaling (adjust_cell data1 data2 vect s2 cell) \<and>
               (l2norm_of (get_row vect cell) = Fin 0 \<longrightarrow>
                  is_nan (out ! cell) \<and> \<not> is_finite (out ! cell)))"
proof -
  let ?out = "map (\<lambda>cell. scaling (adjust_cell data1 data2 vect s2 cell)) [0..<ncol data2]"
  have r: "adjust_shift_variance chk data1 data2 vect sigma = Inr ?out"
    using assms by (simp add: adjust_shift_variance_def)
  have d: "nrow data2 = ncol vect" using assms(1,2) by simp
  have "is_nan (scaling (adjust_cell data1 data2 vect s2 cell)) \<and>
          \<not> is_finite (scaling (adjust_cell data1 data2 vect s2 cell))"
    if z: "l2norm_of (get_row vect cell) = Fin 0" for cell
  proof
    show "is_nan (scaling (adjust_cell data1 data2 vect s2 cell))"
      by (rule zero_norm_scaling_is_nan[OF d z])
    show "\<not> is_finite (scaling (adjust_cell data1 data2 vect s2 cell))"
      unfolding adjust_cell_scaling z by (rule ddiv_zero_not_finite)
  qed
  then show ?thesis using r by simp
qed

text \<open>
  Two cells with the gradients \<open>[0]\<close> and \<open>[1]\<close>: the first factor is NaN, the second is
  the distance 2 from the cell at 1 to the reference cell at 3.
\<close>

theorem zero_norm_gradient_example:
  "l2norm_of (get_row (matrix_of_rows 1 [[Fin 0], [Fin 1]]) 0) = Fin 0 \<and>
   adjust_shift_variance check_numeric_scalar (matrix_of_rows 1 [[Fin 3]])
      (matrix_of_rows 2 [[Fin 0, Fin 1]]) (matrix_of_rows 1 [[Fin 0], [Fin 1]]) (Fin 1)
     = Inr [NaN, Fin 2] \<and>
   \<not> is_finite ([NaN, Fin 2] ! 0)"
proof -
  let ?D1 = "matrix_of_rows 1 [[Fin 3]]" and ?D2 = "matrix_of_rows 2 [[Fin 0, Fin 1]]"
  let ?V = "matrix_of_rows 1 [[Fin 0], [Fin 1]]"
  have h: "nrow ?D1 = nrow ?D2" "nrow ?D1 = ncol ?V" "ncol ?D2 = nrow ?V"
    "check_numeric_scalar (Fin 1) ''sigma'' = Inr (Fin 1)"
    by (simp_all add: matrix_of_rows_simps check_numeric_scalar_def dle_def)
  have z: "l2norm_of (get_row ?V 0) = Fin 0"
    by (simp add: l2norm_of_def get_row_def matrix_of_rows_simps)
  have e: "adjust_shift_variance check_numeric_scalar ?D1 ?D2 ?V (Fin 1) = Inr [NaN, Fin 2]"
    by (simp add: adjust_shift_variance_def check_numeric_scalar_def dle_def matrix_of_rows_simps
        adjust_cell_def get_row_def get_const_col_def upt_rec l2norm_of_def unit_vector_def
        inner_product_def own_batch_def own_batch_step_def sq_distance_to_line_def
        reference_batch_def sum_weights_def std_sort_def pair_less_def dsub_def Let_def
        eval_nat_numeral)
  from zero_norm_gradient_gives_non_finite_factor[where chk=check_numeric_scalar and sigma="Fin 1", OF h] e
  have "\<forall>cell<ncol ?D2. l2norm_of (get_row ?V cell) = Fin 0 \<longrightarrow> \<not> is_finite ([NaN, Fin 2] ! cell)"
    by auto
  moreover have "0 < ncol ?D2" by (simp add: matrix_of_rows_simps)
  ultimately have "\<not> is_finite ([NaN, Fin 2] ! 0)" using z by blast
  then show ?thesis using z e by blast
qed

subsection \<open>A single anchor\<close>




subsection \<open>The values of the anchor index\<close>

text \<open>
  C10. \<open>smooth_gaussian_kernel\<close> checks the length of the anchor index and nothing else
  about it. Once that check and the scalar check have passed, the call returns a matrix
  when every entry of the index is the index of a cell (\<open>0 \<le> i < N\<close>, with \<open>N\<close> the
  number of columns of the data matrix): no access leaves its container. When some entry
  is not, there is no validation error: an access leaves its container (in
  mnn\_correction.cpp a negative entry, or the largest \<open>int\<close>, may instead make the
  resize of the deque fail).
  With entries that are indices of cells, a call that the scalar check rejects fails with
  the error of that check.
\<close>

theorem anchor_entries_must_be_cell_indices:
  "(nrow vect \<noteq> length index \<longrightarrow>
      smooth_gaussian_kernel chk vect index data sigma =
        Inl (DimensionMismatch ''number of rows in vect should be equal to length of index'') \<and>
      smooth_gaussian_kernel_mnn chk vect index data sigma =
        Inl (DimensionMismatch ''number of rows in vect should be equal to length of index'')) \<and>
   (nrow vect = length index \<and> chk sigma ''sigma'' = Inr s2 \<longrightarrow>
      (if \<forall>i\<in>set index. 0 \<le> i \<and> i < int (ncol data)
       then (\<exists>out. smooth_gaussian_kernel chk vect index data sigma = Inr out) \<and>
            (\<exists>out. smooth_gaussian_kernel_mnn chk vect index data sigma = Inr out)
       else smooth_gaussian_kernel chk vect index data sigma = Inl OutOfBounds \<and>
            (smooth_gaussian_kernel_mnn chk vect index data sigma = Inl OutOfBounds \<or>
             smooth_gaussian_kernel_mnn chk vect index data sigma = Inl LengthError))) \<and>
   (nrow vect = length index \<and> chk sigma ''sigma'' = Inl e \<and>
    (\<forall>i\<in>set index. 0 \<le> i \<and> i < int (ncol data)) \<longrightarrow>
      smooth_gaussian_kernel chk vect index data sigma = Inl e \<and>
      smooth_gaussian_kernel_mnn chk vect index data sigma = Inl e)"
proof (intro conjI impI)
  assume "nrow vect \<noteq> length index"
  then show "smooth_gaussian_kernel chk vect index data sigma =
        Inl (DimensionMismatch ''number of rows in vect should be equal to length of index'')"
    and "smooth_gaussian_kernel_mnn chk vect index data sigma =
        Inl (DimensionMismatch ''number of rows in vect should be equal to length of index'')"
    by (simp_all add: smooth_gaussian_kernel_def smooth_gaussian_kernel_mnn_def)
next
  assume a: "nrow vect = length index \<and> chk sigma ''sigma'' = Inr s2"
  show "if \<forall>i\<in>set index. 0 \<le> i \<and> i < int (ncol data)
       then (\<exists>out. smooth_gaussian_kernel chk vect index data sigma = Inr out) \<and>
            (\<exists>out. smooth_gaussian_kernel_mnn chk vect index data sigma = Inr out)
       else smooth_gaussian_kernel chk vect index data sigma = Inl OutOfBounds \<and>
            (smooth_gaussian_kernel_mnn chk vect index data sigma = Inl OutOfBounds \<or>
             smooth_gaussian_kernel_mnn chk vect index data sigma = Inl LengthError)"
  proof (cases "\<forall>i\<in>set index. 0 \<le> i \<and> i < int (ncol data)")
    case True
    from smooth_in_bounds[OF _ _ True, of vect chk sigma s2] a show ?thesis using True by simp
  next
    case False
    from smooth_out_of_bounds[OF _ _ False, of vect chk sigma s2] a show ?thesis using False by simp
  qed
next
  assume a: "nrow vect = length index \<and> chk sigma ''sigma'' = Inl e \<and>
    (\<forall>i\<in>set index. 0 \<le> i \<and> i < int (ncol data))"
  then show "smooth_gaussian_kernel chk vect index data sigma = Inl e"
    by (simp add: smooth_gaussian_kernel_def)
  have "\<forall>i\<in>set index. 0 \<le> i \<and> i < 2147483647" using a below_ncol_small by blast
  with a mnn_averages_char[of vect index] obtain avg where "mnn_averages vect index = Inr avg"
    by blast
  then show "smooth_gaussian_kernel_mnn chk vect index data sigma = Inl e"
    using a by (simp add: smooth_gaussian_kernel_mnn_def)
qed

text \<open>
  One pair and two cells: the entry 0 gives a matrix, the entry 2 an access outside the
  containers in both implementations, the entry -2 also a failing resize.
\<close>

theorem anchor_entries_example:
  "(\<exists>out. smooth_gaussian_kernel check_numeric_scalar (matrix_of_rows 1 [[Fin 5]]) [0]
      (matrix_of_rows 2 [[Fin 0, Fin 0]]) (Fin 1) = Inr out) \<and>
   smooth_gaussian_kernel check_numeric_scalar (matrix_of_rows 1 [[Fin 5]]) [2]
      (matrix_of_rows 2 [[Fin 0, Fin 0]]) (Fin 1) = Inl OutOfBounds \<and>
   smooth_gaussian_kernel_mnn check_numeric_scalar (matrix_of_rows 1 [[Fin 5]]) [2]
      (matrix_of_rows 2 [[Fin 0, Fin 0]]) (Fin 1) = Inl OutOfBounds \<and>
   smooth_gaussian_kernel_mnn check_numeric_scalar (matrix_of_rows 1 [[Fin 5]]) [- 2]
      (matrix_of_rows 2 [[Fin 0, Fin 0]]) (Fin 1) = Inl LengthError"
proof -
  let ?V = "matrix_of_rows 1 [[Fin 5]]" and ?D = "matrix_of_rows 2 [[Fin 0, Fin 0]]"
  have len: "nrow ?V = length [i]" for i :: int by (simp add: matrix_of_rows_simps)
  have chk: "check_numeric_scalar (Fin 1) ''sigma'' = Inr (Fin 1)"
    by (simp add: check_numeric_scalar_def dle_def)
  have good: "\<forall>i\<in>set [0 :: int]. 0 \<le> i \<and> i < int (ncol ?D)" by (simp add: matrix_of_rows_simps)
  have bad: "\<not> (\<forall>i\<in>set [2 :: int]. 0 \<le> i \<and> i < int (ncol ?D))" by (simp add: matrix_of_rows_simps)
  from anchor_entries_must_be_cell_indices[of ?V "[0]" check_numeric_scalar ?D "Fin 1" "Fin 1"]
    len chk good
  have 1: "\<exists>out. smooth_gaussian_kernel check_numeric_scalar ?V [0] ?D (Fin 1) = Inr out"
    by simp
  from anchor_entries_must_be_cell_indices[of ?V "[2]" check_numeric_scalar ?D "Fin 1" "Fin 1"]
    len chk bad
  have 2: "smooth_gaussian_kernel check_numeric_scalar ?V [2] ?D (Fin 1) = Inl OutOfBounds"
    by simp
  have 3: "smooth_gaussian_kernel_mnn check_numeric_scalar ?V [2] ?D (Fin 1) = Inl OutOfBounds"
    by (simp add: smooth_gaussian_kernel_mnn_def check_numeric_scalar_def dle_def mnn_averages_def
        matrix_of_rows_simps divide_averages_def mnn_average_row_def get_row_def divide_by_def
        resize_def mnn_accumulated_def mnn_smooth_cell_def Let_def)
  have 4: "smooth_gaussian_kernel_mnn check_numeric_scalar ?V [- 2] ?D (Fin 1) = Inl LengthError"
    by (simp add: smooth_gaussian_kernel_mnn_def mnn_averages_def matrix_of_rows_simps
        mnn_average_row_def Let_def)
  show ?thesis using 1 2 3 4 by blast
qed

end
